theory Spec2Isabelle
  imports Main "HOL-Library.Word"
begin

unbundle bit_operations_syntax

section \<open>Data model\<close>

text \<open>
  The ingestion and pairing engine of the XML/XSL viewer (\<^verbatim>\<open>viewer.js\<close>): the ZIP
  local-file-header reader \<^verbatim>\<open>decompressZip\<close>, the batch ingestion
  \<^verbatim>\<open>addFilesToStorage\<close> with its module-level state, and the two clear actions of the
  user interface.

  A browser \<^verbatim>\<open>File\<close> is a record of the attributes the code reads. Strings are lists of
  8-bit characters, numbers that count are \<open>nat\<close>, the last-modified time stamp is an
  \<open>int\<close>, a byte buffer is a list of 8-bit words. A JavaScript string is a sequence of
  16-bit code units; the code treats names as sequences only (suffix tests, concatenation,
  map keys), so a name is modelled by a list of characters, and the two characters that
  are line terminators here are the line feed and the carriage return.
\<close>

type_synonym byte = "8 word"

record File =
  name :: string
  webkitRelativePath :: string
  fsize :: nat
  lastModified :: int
  ftype :: string
  bytes :: "byte list"

text \<open>
  What the browser does for the code is a parameter of the model: the raw-deflate
  \<^verbatim>\<open>DecompressionStream\<close> (\<open>None\<close> when the stream fails, which rejects the pending
  read), \<^verbatim>\<open>TextDecoder\<close>, the two field extractions that parse a file's text with
  \<^verbatim>\<open>DOMParser\<close> (the trimmed text of the first \<^verbatim>\<open>title\<close> element or the empty
  string; the trimmed text of the first office-name element or the empty string), and the
  clock: \<open>dateNow env c\<close> is what \<^verbatim>\<open>Date.now()\<close> returns when the pair key with counter
  value \<open>c\<close> is built, \<open>fileNow env off\<close> the time at which the member whose data starts
  at offset \<open>off\<close> is wrapped in a new \<^verbatim>\<open>File\<close>.
\<close>

record env =
  inflate :: "byte list \<Rightarrow> byte list option"
  decodeText :: "byte list \<Rightarrow> string"
  extractTitle :: "byte list \<Rightarrow> string"
  extractJigyousho :: "byte list \<Rightarrow> string"
  dateNow :: "nat \<Rightarrow> nat"
  fileNow :: "nat \<Rightarrow> int"

datatype zip_error = RangeError | DecompressError

datatype sourceType = Zip | Folder | Direct

record sourceInfo =
  sourceIndex :: nat
  sourceType :: sourceType
  sourceName :: string
  folderName :: "string option"

text \<open>An element of \<^verbatim>\<open>processedFiles\<close>, of a pool list, a cache entry and a stored pair.\<close>

record processedFile =
  itemFile :: File
  itemSource :: sourceInfo

record pooledXml =
  pooledFile :: File
  pooledJigyoushoName :: string
  pooledSource :: sourceInfo

record xslData =
  xslFile :: File
  xslTitle :: string

record pairData =
  basename :: string
  xml :: File
  xsl :: File
  title :: string
  jigyoushoName :: string
  sourceInfo :: sourceInfo

text \<open>
  The module-level state. \<^verbatim>\<open>fileStorage\<close> is a JavaScript \<^verbatim>\<open>Map\<close> whose insertion
  order the interface shows, so it is an association list; the cache, the pool and the
  set of processed keys are only looked up, updated and cleared.
\<close>

record state =
  fileStorage :: "(string \<times> pairData) list"
  fileIdCounter :: nat
  xslCache :: "string \<rightharpoonup> xslData"
  xmlPool :: "string \<rightharpoonup> pooledXml list"
  processedFileKeys :: "string set"

definition initialState :: state where
  "initialState =
     \<lparr>fileStorage = [], fileIdCounter = 1, xslCache = Map.empty, xmlPool = Map.empty,
      processedFileKeys = {}\<rparr>"

section \<open>The ZIP reader\<close>

text \<open>
  \<^verbatim>\<open>DataView.getUint16\<close> and \<^verbatim>\<open>getUint32\<close>, little-endian: a read that does not fit
  in the buffer throws a \<^verbatim>\<open>RangeError\<close>.
\<close>

definition getUint16 :: "byte list \<Rightarrow> nat \<Rightarrow> zip_error + nat" where
  "getUint16 buf off =
     (if off + 2 \<le> length buf
      then Inr (unat (buf ! off) + 256 * unat (buf ! (off + 1)))
      else Inl RangeError)"

definition getUint32 :: "byte list \<Rightarrow> nat \<Rightarrow> zip_error + nat" where
  "getUint32 buf off =
     (if off + 4 \<le> length buf
      then Inr (unat (buf ! off) + 256 * unat (buf ! (off + 1))
                + 65536 * unat (buf ! (off + 2)) + 16777216 * unat (buf ! (off + 3)))
      else Inl RangeError)"

text \<open>\<^verbatim>\<open>ArrayBuffer.slice(start, stop)\<close> with \<open>start \<le> stop\<close>: both ends are clamped.\<close>

definition slice :: "'a list \<Rightarrow> nat \<Rightarrow> nat \<Rightarrow> 'a list" where
  "slice buf start stop = take (stop - start) (drop start buf)"

text \<open>
  \<^verbatim>\<open>pathName.replace(/.*\//, "")\<close>: the dot matches no line terminator, so the leftmost
  match lies in the first line that holds a slash and runs to the last slash of that line.
\<close>

definition isLineTerminator :: "char \<Rightarrow> bool" where
  "isLineTerminator c = (c = CHR 0x0A \<or> c = CHR 0x0D)"

function stripDirs :: "string \<Rightarrow> string" where
  "stripDirs s =
     (let line = takeWhile (\<lambda>c. \<not> isLineTerminator c) s;
          rest = dropWhile (\<lambda>c. \<not> isLineTerminator c) s
      in if CHR ''/'' \<in> set line
         then rev (takeWhile (\<lambda>c. c \<noteq> CHR ''/'') (rev line)) @ rest
         else (case rest of [] \<Rightarrow> line | t # rest' \<Rightarrow> line @ t # stripDirs rest'))"
  by pat_completeness auto
termination
proof (relation "measure length")
  show "wf (measure length)" by simp
next
  fix s :: string and line rest t rest'
  assume "rest = dropWhile (\<lambda>c. \<not> isLineTerminator c) s" and "rest = t # rest'"
  then have "length (t # rest') \<le> length s"
    by (metis length_dropWhile_le)
  then show "(rest', s) \<in> measure length" by simp
qed

declare stripDirs.simps [simp del]

text \<open>\<^verbatim>\<open>pathName[pathName.length - 1] === "/"\<close>; the last character of the empty string is undefined.\<close>

definition endsWithSlash :: "string \<Rightarrow> bool" where
  "endsWithSlash pathName = (pathName \<noteq> [] \<and> last pathName = CHR ''/'')"

text \<open>\<^verbatim>\<open>new File([decompressedData], fileName)\<close>.\<close>

definition newFile :: "int \<Rightarrow> string \<Rightarrow> byte list \<Rightarrow> File" where
  "newFile now fileName decompressedData =
     \<lparr>name = fileName, webkitRelativePath = [], fsize = length decompressedData,
      lastModified = now, ftype = [], bytes = decompressedData\<rparr>"

text \<open>
  The inner loop of an entry in data-descriptor mode: the forward scan for the signature
  \<open>0x08074b50\<close>. It returns the offset after the scan and the compressed size.
\<close>

function scanDescriptor :: "byte list \<Rightarrow> nat \<Rightarrow> nat \<Rightarrow> zip_error + nat \<times> nat" where
  "scanDescriptor buf offset compressedSize =
     (if offset < length buf then
        (case getUint32 buf offset of
           Inl e \<Rightarrow> Inl e
         | Inr potentialSignature \<Rightarrow>
             if potentialSignature = 0x08074b50 then
               (case getUint32 buf (offset + 8) of
                  Inl e \<Rightarrow> Inl e
                | Inr cs \<Rightarrow> Inr (offset + 16, cs))
             else scanDescriptor buf (offset + 1) compressedSize)
      else Inr (offset, compressedSize))"
  by pat_completeness auto
termination
  by (relation "measure (\<lambda>(buf, offset, cs). length buf - offset)") auto

declare scanDescriptor.simps [simp del]

text \<open>
  One pass of the outer loop up to the point where the entry's extent is known: \<open>Inr None\<close>
  is the \<^verbatim>\<open>break\<close> on a foreign signature, \<open>Inr (Some (pathName, dataOffset, offset',
  compressedSize))\<close> an entry with the offset the walk continues at.
\<close>

definition readEntry ::
  "env \<Rightarrow> byte list \<Rightarrow> nat \<Rightarrow> zip_error + (string \<times> nat \<times> nat \<times> nat) option" where
  "readEntry env buf offset =
     (case getUint32 buf offset of
        Inl e \<Rightarrow> Inl e
      | Inr signature \<Rightarrow>
     if signature \<noteq> 0x04034b50 then Inr None else
     (case getUint16 buf (offset + 6) of
        Inl e \<Rightarrow> Inl e
      | Inr generalPurposeFlag \<Rightarrow>
     (case getUint16 buf (offset + 26) of
        Inl e \<Rightarrow> Inl e
      | Inr fileNameLength \<Rightarrow>
     (case getUint16 buf (offset + 28) of
        Inl e \<Rightarrow> Inl e
      | Inr extraFieldLength \<Rightarrow>
     (case getUint32 buf (offset + 18) of
        Inl e \<Rightarrow> Inl e
      | Inr compressedSize \<Rightarrow>
     (let pathName = decodeText env (slice buf (offset + 30) (offset + 30 + fileNameLength));
          dataOffset = offset + (fileNameLength + extraFieldLength + 30)
      in (case (if generalPurposeFlag AND 8 \<noteq> 0
                then scanDescriptor buf dataOffset compressedSize
                else Inr (dataOffset + compressedSize, compressedSize)) of
            Inl e \<Rightarrow> Inl e
          | Inr (offset', compressedSize') \<Rightarrow>
              Inr (Some (pathName, dataOffset, offset', compressedSize')))))))))"

lemma scanDescriptor_advances:
  "scanDescriptor buf offset cs = Inr (offset', cs') \<Longrightarrow> offset \<le> offset'"
proof (induction buf offset cs rule: scanDescriptor.induct)
  case (1 buf offset compressedSize)
  then show ?case
    by (subst (asm) (2) scanDescriptor.simps)
       (fastforce split: if_splits sum.splits)
qed

lemma readEntry_advances:
  "readEntry env buf offset = Inr (Some (pathName, dataOffset, offset', cs)) \<Longrightarrow> offset < offset'"
  by (auto simp: readEntry_def Let_def split: sum.splits if_splits dest: scanDescriptor_advances)

text \<open>
  The outer loop. A failed decompression rejects the \<^verbatim>\<open>await\<close>, which ends the whole
  call: the list \<open>files\<close> is local and is lost.
\<close>

function decompressLoop :: "env \<Rightarrow> byte list \<Rightarrow> nat \<Rightarrow> File list \<Rightarrow> zip_error + File list" where
  "decompressLoop env buf offset files =
     (if offset < length buf then
        (case readEntry env buf offset of
           Inl e \<Rightarrow> Inl e
         | Inr None \<Rightarrow> Inr files
         | Inr (Some (pathName, dataOffset, offset', compressedSize)) \<Rightarrow>
             if \<not> endsWithSlash pathName then
               (case inflate env (slice buf dataOffset (dataOffset + compressedSize)) of
                  None \<Rightarrow> Inl DecompressError
                | Some decompressedData \<Rightarrow>
                    decompressLoop env buf offset'
                      (files @ [newFile (fileNow env dataOffset) (stripDirs pathName)
                                  decompressedData]))
             else decompressLoop env buf offset' files)
      else Inr files)"
  by pat_completeness auto
termination
  by (relation "measure (\<lambda>(env, buf, offset, files). length buf - offset)")
     (auto dest: readEntry_advances)

declare decompressLoop.simps [simp del]

definition decompressZip :: "env \<Rightarrow> byte list \<Rightarrow> zip_error + File list" where
  "decompressZip env arrayBuffer = decompressLoop env arrayBuffer 0 []"

text \<open>
  The states of the walk: \<open>visits env buf offset files\<close> holds when the outer loop of
  \<^verbatim>\<open>decompressZip\<close> on \<open>buf\<close> comes to test its condition at \<open>offset\<close> with the member
  files \<open>files\<close> collected.
\<close>

inductive visits :: "env \<Rightarrow> byte list \<Rightarrow> nat \<Rightarrow> File list \<Rightarrow> bool" for env buf where
  visits_start: "visits env buf 0 []"
| visits_directory:
    "visits env buf offset files \<Longrightarrow> offset < length buf \<Longrightarrow>
     readEntry env buf offset = Inr (Some (pathName, dataOffset, offset', compressedSize)) \<Longrightarrow>
     endsWithSlash pathName \<Longrightarrow>
     visits env buf offset' files"
| visits_member:
    "visits env buf offset files \<Longrightarrow> offset < length buf \<Longrightarrow>
     readEntry env buf offset = Inr (Some (pathName, dataOffset, offset', compressedSize)) \<Longrightarrow>
     \<not> endsWithSlash pathName \<Longrightarrow>
     inflate env (slice buf dataOffset (dataOffset + compressedSize)) = Some decompressedData \<Longrightarrow>
     visits env buf offset'
       (files @ [newFile (fileNow env dataOffset) (stripDirs pathName) decompressedData])"

section \<open>Ingestion and pairing\<close>

text \<open>Decimal text of a number, as a template literal prints an integer.\<close>

definition digitChar :: "nat \<Rightarrow> char" where
  "digitChar d = ''0123456789'' ! d"

fun showNat :: "nat \<Rightarrow> string" where
  "showNat n = (if n < 10 then [digitChar n] else showNat (n div 10) @ [digitChar (n mod 10)])"

declare showNat.simps [simp del]

definition showInt :: "int \<Rightarrow> string" where
  "showInt i = (if i < 0 then CHR ''-'' # showNat (nat (- i)) else showNat (nat i))"

definition endsWith :: "string \<Rightarrow> string \<Rightarrow> bool" where
  "endsWith s suffix =
     (length suffix \<le> length s \<and> drop (length s - length suffix) s = suffix)"

text \<open>\<^verbatim>\<open>name.replace(/\.xsl$/, '')\<close> for the extension \<open>ext\<close>.\<close>

definition removeExtension :: "string \<Rightarrow> string \<Rightarrow> string" where
  "removeExtension ext s = (if endsWith s ext then take (length s - length ext) s else s)"

definition extractFolderName :: "File \<Rightarrow> string option" where
  "extractFolderName file =
     (if webkitRelativePath file \<noteq> [] then
        (if CHR ''/'' \<in> set (webkitRelativePath file)
         then Some (takeWhile (\<lambda>c. c \<noteq> CHR ''/'') (webkitRelativePath file))
         else None)
      else None)"

definition fileKey :: "File \<Rightarrow> string" where
  "fileKey file =
     (if webkitRelativePath file \<noteq> [] then webkitRelativePath file else name file)
       @ ''_'' @ showNat (fsize file) @ ''_'' @ showInt (lastModified file)"

definition isZipFile :: "File \<Rightarrow> bool" where
  "isZipFile file =
     (ftype file = ''application/x-zip-compressed'' \<or> ftype file = ''application/zip''
      \<or> endsWith (name file) ''.zip'')"

definition zipItem :: "File \<Rightarrow> nat \<Rightarrow> File \<Rightarrow> processedFile" where
  "zipItem file i f =
     \<lparr>itemFile = f,
      itemSource = \<lparr>sourceIndex = i, sourceType = Zip, sourceName = name file,
                    folderName = extractFolderName file\<rparr>\<rparr>"

definition plainItem :: "File \<Rightarrow> nat \<Rightarrow> processedFile" where
  "plainItem file i =
     \<lparr>itemFile = file,
      itemSource =
        \<lparr>sourceIndex = i,
         sourceType = (case extractFolderName file of
                         None \<Rightarrow> Direct
                       | Some folder \<Rightarrow> if folder \<noteq> [] then Folder else Direct),
         sourceName = name file,
         folderName = extractFolderName file\<rparr>\<rparr>"

text \<open>
  The first loop of \<^verbatim>\<open>addFilesToStorage\<close>: the gate on the processed keys and the
  expansion of archives. It returns the set of keys as the loop left it, and the list
  \<^verbatim>\<open>processedFiles\<close> or the error that ended the call.
\<close>

fun collectLoop ::
  "env \<Rightarrow> File list \<Rightarrow> nat \<Rightarrow> string set \<Rightarrow> processedFile list
     \<Rightarrow> string set \<times> (zip_error + processedFile list)" where
  "collectLoop env [] i keys processedFiles = (keys, Inr processedFiles)"
| "collectLoop env (file # rest) i keys processedFiles =
     (if fileKey file \<in> keys then collectLoop env rest (i + 1) keys processedFiles
      else if isZipFile file then
        (case decompressZip env (bytes file) of
           Inl e \<Rightarrow> (insert (fileKey file) keys, Inl e)
         | Inr unzipped \<Rightarrow>
             collectLoop env rest (i + 1) (insert (fileKey file) keys)
               (processedFiles @ map (zipItem file i) unzipped))
      else
        collectLoop env rest (i + 1) (insert (fileKey file) keys)
          (processedFiles @ [plainItem file i]))"

datatype docKind = XmlDocument | XslDocument | Ignored

definition classify :: "string \<Rightarrow> docKind" where
  "classify fileName =
     (if endsWith fileName ''.xml'' then XmlDocument
      else if endsWith fileName ''.xsl'' then XslDocument
      else Ignored)"

definition xmlFilesOf :: "processedFile list \<Rightarrow> processedFile list" where
  "xmlFilesOf processedFiles =
     filter (\<lambda>item. classify (name (itemFile item)) = XmlDocument) processedFiles"

definition xslFilesOf :: "processedFile list \<Rightarrow> processedFile list" where
  "xslFilesOf processedFiles =
     filter (\<lambda>item. classify (name (itemFile item)) = XslDocument) processedFiles"

text \<open>\<^verbatim>\<open>Map.prototype.set\<close> on an insertion-ordered map: an old key keeps its place.\<close>

fun mapSet :: "'k \<Rightarrow> 'v \<Rightarrow> ('k \<times> 'v) list \<Rightarrow> ('k \<times> 'v) list" where
  "mapSet k v [] = [(k, v)]"
| "mapSet k v ((k', v') # kvs) =
     (if k' = k then (k, v) # kvs else (k', v') # mapSet k v kvs)"

definition uniqueKeyOf :: "string \<Rightarrow> nat \<Rightarrow> nat \<Rightarrow> string" where
  "uniqueKeyOf base counter now = base @ ''_'' @ showNat counter @ ''_'' @ showNat now"

text \<open>The body shared by the two places that store a pair.\<close>

definition storePair ::
  "env \<Rightarrow> string \<Rightarrow> File \<Rightarrow> xslData \<Rightarrow> string \<Rightarrow> sourceInfo \<Rightarrow> state \<Rightarrow> state" where
  "storePair env base xmlFile xslD jigyousho src s =
     s\<lparr>fileIdCounter := fileIdCounter s + 1,
       fileStorage :=
         mapSet (uniqueKeyOf base (fileIdCounter s) (dateNow env (fileIdCounter s)))
           \<lparr>basename = base, xml = xmlFile, xsl = xslFile xslD, title = xslTitle xslD,
            jigyoushoName = jigyousho, sourceInfo = src\<rparr>
           (fileStorage s)\<rparr>"

text \<open>The loop over the XSL files; the second component is \<^verbatim>\<open>newXslBasenames\<close>.\<close>

definition processXsl :: "env \<Rightarrow> state \<times> string list \<Rightarrow> processedFile \<Rightarrow> state \<times> string list" where
  "processXsl env acc item =
     (let file = itemFile item;
          base = removeExtension ''.xsl'' (name file);
          t = extractTitle env (bytes file)
      in ((fst acc)\<lparr>xslCache := (xslCache (fst acc))(base \<mapsto> \<lparr>xslFile = file, xslTitle = t\<rparr>)\<rparr>,
          snd acc @ [base]))"

text \<open>The loop over the XML files.\<close>

definition processXml :: "env \<Rightarrow> state \<Rightarrow> processedFile \<Rightarrow> state" where
  "processXml env s item =
     (let xmlFile = itemFile item;
          base = removeExtension ''.xml'' (name xmlFile);
          jigyousho = extractJigyousho env (bytes xmlFile)
      in (case xslCache s base of
            Some xslD \<Rightarrow> storePair env base xmlFile xslD jigyousho (itemSource item) s
          | None \<Rightarrow>
              s\<lparr>xmlPool := (xmlPool s)(base \<mapsto>
                   (case xmlPool s base of None \<Rightarrow> [] | Some pooled \<Rightarrow> pooled)
                   @ [\<lparr>pooledFile = xmlFile, pooledJigyoushoName = jigyousho,
                       pooledSource = itemSource item\<rparr>])\<rparr>))"

text \<open>
  The loop over \<^verbatim>\<open>newXslBasenames\<close>. The cache lookup cannot miss there: every new
  basename was stored in the cache by the same call and nothing removes a cache entry
  before the loop ends (lemma \<open>drain_lookup_never_misses\<close> below), so the last case is
  never taken.
\<close>

definition drainPool :: "env \<Rightarrow> state \<Rightarrow> string \<Rightarrow> state" where
  "drainPool env s base =
     (case xmlPool s base of
        None \<Rightarrow> s
      | Some pooledXmls \<Rightarrow>
          if 0 < length pooledXmls then
            (case xslCache s base of
               Some xslD \<Rightarrow>
                 (foldl (\<lambda>s' p. storePair env base (pooledFile p) xslD (pooledJigyoushoName p)
                                  (pooledSource p) s')
                    s pooledXmls)
                 \<lparr>xmlPool := (xmlPool s)(base := None)\<rparr>
             | None \<Rightarrow> s)
          else s)"

text \<open>
  \<^verbatim>\<open>addFilesToStorage\<close>: one batch, run to completion. The result is the error that
  rejected the call, if any, and the state it left: on an error only the processed keys
  have changed, since the list \<^verbatim>\<open>processedFiles\<close> is local to the call. The code starts a
  batch on every drop without waiting for the batch before it; the model runs the batches
  of a session one after the other. The final \<^verbatim>\<open>renderUI()\<close> only draws.
\<close>

definition pairFiles :: "env \<Rightarrow> processedFile list \<Rightarrow> state \<Rightarrow> state" where
  "pairFiles env processedFiles s =
     (let afterXsl = foldl (processXsl env) (s, []) (xslFilesOf processedFiles);
          afterXml = foldl (processXml env) (fst afterXsl) (xmlFilesOf processedFiles)
      in foldl (drainPool env) afterXml (snd afterXsl))"

definition addFilesToStorage :: "env \<Rightarrow> File list \<Rightarrow> state \<Rightarrow> zip_error option \<times> state" where
  "addFilesToStorage env files s =
     (case collectLoop env files 0 (processedFileKeys s) [] of
        (keys, Inl e) \<Rightarrow> (Some e, s\<lparr>processedFileKeys := keys\<rparr>)
      | (keys, Inr processedFiles) \<Rightarrow>
          (None, pairFiles env processedFiles (s\<lparr>processedFileKeys := keys\<rparr>)))"

section \<open>The actions of the user interface\<close>

text \<open>
  The clear button of the full-page pair view (\<^verbatim>\<open>showPair\<close>), the clear button and the
  back button of the list view (\<^verbatim>\<open>renderUI\<close>), and the deletion of one pair. The flag is
  the answer to the confirmation dialog.
\<close>

definition clearPairView :: "bool \<Rightarrow> state \<Rightarrow> state" where
  "clearPairView confirmed s =
     (if confirmed then s\<lparr>fileStorage := [], xslCache := Map.empty, xmlPool := Map.empty\<rparr>
      else s)"

definition clearListView :: "bool \<Rightarrow> state \<Rightarrow> state" where
  "clearListView confirmed s =
     (if confirmed
      then s\<lparr>fileStorage := [], xslCache := Map.empty, xmlPool := Map.empty,
             processedFileKeys := {}\<rparr>
      else s)"

definition backToTop :: "state \<Rightarrow> state" where
  "backToTop s =
     s\<lparr>fileStorage := [], xslCache := Map.empty, xmlPool := Map.empty,
       processedFileKeys := {}\<rparr>"

definition deletePair :: "bool \<Rightarrow> string \<Rightarrow> state \<Rightarrow> state" where
  "deletePair confirmed uniqueKey s =
     (if confirmed then s\<lparr>fileStorage := filter (\<lambda>kv. fst kv \<noteq> uniqueKey) (fileStorage s)\<rparr>
      else s)"

datatype event =
    AddFiles "File list"
  | ClearPairView bool
  | ClearListView bool
  | BackToTop
  | DeletePair bool string

fun step :: "env \<Rightarrow> state \<Rightarrow> event \<Rightarrow> state" where
  "step env s (AddFiles files) = snd (addFilesToStorage env files s)"
| "step env s (ClearPairView confirmed) = clearPairView confirmed s"
| "step env s (ClearListView confirmed) = clearListView confirmed s"
| "step env s BackToTop = backToTop s"
| "step env s (DeletePair confirmed uniqueKey) = deletePair confirmed uniqueKey s"

definition run :: "env \<Rightarrow> event list \<Rightarrow> state" where
  "run env events = foldl (step env) initialState events"

section \<open>The classification of the React variant\<close>

text \<open>
  The repository holds a second implementation of the same pipeline, a React component
  with its own \<^verbatim>\<open>addFilesToStorage\<close>. It classifies a file by the lower-cased name:
  \<^verbatim>\<open>item.file.name.toLowerCase().endsWith(".xml")\<close>. Characters are 8-bit here, so
  \<^verbatim>\<open>toLowerCase\<close> is modelled on the Latin-1 range.
\<close>

definition toLowerCaseChar :: "char \<Rightarrow> char" where
  "toLowerCaseChar c =
     (let n = (of_char c :: nat)
      in if (65 \<le> n \<and> n \<le> 90) \<or> (192 \<le> n \<and> n \<le> 222 \<and> n \<noteq> 215)
         then char_of (n + 32) else c)"

definition toLowerCase :: "string \<Rightarrow> string" where
  "toLowerCase s = map toLowerCaseChar s"

definition classifyReact :: "string \<Rightarrow> docKind" where
  "classifyReact fileName =
     (if endsWith (toLowerCase fileName) ''.xml'' then XmlDocument
      else if endsWith (toLowerCase fileName) ''.xsl'' then XslDocument
      else Ignored)"

section \<open>Invariants of a session\<close>

text \<open>
  Every stored pair, cache entry and pool entry carries files whose names are the
  basename followed by the extension of its side.
\<close>

definition pairedByName :: "pairData \<Rightarrow> bool" where
  "pairedByName p =
     (name (xml p) = basename p @ ''.xml'' \<and> name (xsl p) = basename p @ ''.xsl'')"

definition namesAgree :: "state \<Rightarrow> bool" where
  "namesAgree s =
     (list_all (\<lambda>kv. pairedByName (snd kv)) (fileStorage s)
      \<and> (\<forall>b d. xslCache s b = Some d \<longrightarrow> name (xslFile d) = b @ ''.xsl'')
      \<and> (\<forall>b ps. xmlPool s b = Some ps \<longrightarrow>
            list_all (\<lambda>p. name (pooledFile p) = b @ ''.xml'') ps))"

text \<open>
  Every key of \<^verbatim>\<open>fileStorage\<close> was built from a counter value below the current one,
  and every stored pair has a cache entry for its basename.
\<close>

definition keysBelowCounter :: "state \<Rightarrow> bool" where
  "keysBelowCounter s =
     list_all (\<lambda>kv. \<exists>c t. c < fileIdCounter s \<and> fst kv = uniqueKeyOf (basename (snd kv)) c t)
       (fileStorage s)"

definition pairsCached :: "state \<Rightarrow> bool" where
  "pairsCached s = list_all (\<lambda>kv. xslCache s (basename (snd kv)) \<noteq> None) (fileStorage s)"

text \<open>The pair that the drain loop stores for a pooled XML file.\<close>

definition pooledPair :: "string \<Rightarrow> xslData \<Rightarrow> pooledXml \<Rightarrow> pairData" where
  "pooledPair b d p =
     \<lparr>basename = b, xml = pooledFile p, xsl = xslFile d, title = xslTitle d,
      jigyoushoName = pooledJigyoushoName p, sourceInfo = pooledSource p\<rparr>"

text \<open>Reading a decimal numeral back, to tell two pair keys apart.\<close>

definition isDigit :: "char \<Rightarrow> bool" where
  "isDigit ch = (ch \<in> set ''0123456789'')"

definition digitVal :: "char \<Rightarrow> nat" where
  "digitVal ch = of_char ch - 48"

definition readNat :: "string \<Rightarrow> nat" where
  "readNat s = foldl (\<lambda>a ch. 10 * a + digitVal ch) 0 s"

section \<open>The files a batch accepts\<close>

text \<open>
  The gate on the processed keys, read as a list: the files of a batch that pass it are, in
  the order of the batch and with their positions, the first file of each key that the
  session has not recorded.
\<close>

fun acceptedFiles :: "File list \<Rightarrow> nat \<Rightarrow> string set \<Rightarrow> (nat \<times> File) list" where
  "acceptedFiles [] i keys = []"
| "acceptedFiles (file # rest) i keys =
     (if fileKey file \<in> keys then acceptedFiles rest (i + 1) keys
      else (i, file) # acceptedFiles rest (i + 1) (insert (fileKey file) keys))"

text \<open>
  What an accepted file contributes to \<^verbatim>\<open>processedFiles\<close>: a plain file itself, an archive
  its members. An archive that fails to decompress has no members to contribute; the
  batch that accepts one ends in its error (lemma \<open>addFiles_completes_iff\<close> below).
\<close>

definition decompresses :: "env \<Rightarrow> File \<Rightarrow> bool" where
  "decompresses env file = (case decompressZip env (bytes file) of Inl e \<Rightarrow> False | Inr unzipped \<Rightarrow> True)"

definition expandFile :: "env \<Rightarrow> nat \<times> File \<Rightarrow> processedFile list" where
  "expandFile env p =
     (if isZipFile (snd p) then
        (case decompressZip env (bytes (snd p)) of
           Inl e \<Rightarrow> []
         | Inr unzipped \<Rightarrow> map (zipItem (snd p) (fst p)) unzipped)
      else [plainItem (snd p) (fst p)])"

text \<open>
  The number of times a session holds the file \<open>f\<close> as an XML document: the stored pairs
  whose XML file it is, and the entries that are it in the pool of its basename (a pooled
  file sits in the pool of its own basename, by \<open>namesAgree\<close>).
\<close>

definition xmlCopies :: "state \<Rightarrow> File \<Rightarrow> nat" where
  "xmlCopies s f =
     length (filter (\<lambda>kv. xml (snd kv) = f) (fileStorage s))
     + (case xmlPool s (removeExtension ''.xml'' (name f)) of
          None \<Rightarrow> 0
        | Some pooled \<Rightarrow> length (filter (\<lambda>p. pooledFile p = f) pooled))"

section \<open>Sample inputs\<close>

text \<open>
  A concrete environment for evaluating the model: text is decoded byte by byte and the
  inflater knows the raw-deflate streams \<open>4B 04 00\<close> (the letter a) and \<open>03 00\<close> (the
  empty stream) and fails on every other payload. The sample documents are well-formed
  XML: the XML documents are the empty elements \<^verbatim>\<open><a/>\<close> and \<^verbatim>\<open><b/>\<close>, and an XSL document
  with the title \<open>t\<close> is \<^verbatim>\<open><a><title>t</title></a>\<close>. On such documents
  \<^verbatim>\<open>querySelector('title')\<close> finds the one \<^verbatim>\<open>title\<close> element, whose text is what stands between
  the first \<^verbatim>\<open><title>\<close> and the \<^verbatim>\<open></title>\<close> after it (no sample title has white space to
  trim), and finds none in a text without that tag; no sample document has an element for
  the office name, so the office name is empty.
\<close>

definition decodeLatin1 :: "byte list \<Rightarrow> string" where
  "decodeLatin1 bs = map (\<lambda>b. char_of (unat b)) bs"

fun afterFirst :: "string \<Rightarrow> string \<Rightarrow> string option" where
  "afterFirst pat [] = (if pat = [] then Some [] else None)"
| "afterFirst pat (c # cs) =
     (if take (length pat) (c # cs) = pat then Some (drop (length pat) (c # cs))
      else afterFirst pat cs)"

fun beforeFirst :: "string \<Rightarrow> string \<Rightarrow> string" where
  "beforeFirst pat [] = []"
| "beforeFirst pat (c # cs) =
     (if take (length pat) (c # cs) = pat then [] else c # beforeFirst pat cs)"

definition sampleTitle :: "byte list \<Rightarrow> string" where
  "sampleTitle bs =
     (case afterFirst ''<title>'' (decodeLatin1 bs) of
        None \<Rightarrow> []
      | Some rest \<Rightarrow>
          (case afterFirst ''</title>'' rest of
             None \<Rightarrow> []
           | Some behind \<Rightarrow> beforeFirst ''</title>'' rest))"

definition xslDocument :: "byte list \<Rightarrow> byte list" where
  "xslDocument t =
     [0x3C, 0x61, 0x3E, 0x3C, 0x74, 0x69, 0x74, 0x6C, 0x65, 0x3E] @ t
     @ [0x3C, 0x2F, 0x74, 0x69, 0x74, 0x6C, 0x65, 0x3E, 0x3C, 0x2F, 0x61, 0x3E]"

definition sampleInflate :: "byte list \<Rightarrow> byte list option" where
  "sampleInflate d =
     (if d = [0x4B, 0x04, 0x00] then Some [0x61]
      else if d = [0x03, 0x00] then Some []
      else None)"

definition sampleEnv :: env where
  "sampleEnv =
     \<lparr>inflate = sampleInflate, decodeText = decodeLatin1, extractTitle = sampleTitle,
      extractJigyousho = (\<lambda>text. []), dateNow = (\<lambda>c. 1700000000000 + c),
      fileNow = (\<lambda>off. 1700000000000)\<rparr>"

text \<open>
  A local file header with the given flag byte, compression method, compressed size and
  file name, no extra field.
\<close>

definition localHeader :: "byte \<Rightarrow> byte \<Rightarrow> byte \<Rightarrow> byte list \<Rightarrow> byte list" where
  "localHeader flag method csize fileName =
     [0x50, 0x4B, 0x03, 0x04, 0x14, 0x00, flag, 0x00, method, 0x00,
      0x00, 0x00, 0x00, 0x00, 0x00, 0x00, 0x00, 0x00, csize, 0x00,
      0x00, 0x00, 0x00, 0x00, 0x00, 0x00, word_of_nat (length fileName), 0x00, 0x00, 0x00]
     @ fileName"

text \<open>The archive with the one deflated member \<^verbatim>\<open>a.xml\<close>, and the empty archive.\<close>

definition zipOne :: "byte list" where
  "zipOne = localHeader 0x00 0x08 0x03 [0x61, 0x2E, 0x78, 0x6D, 0x6C] @ [0x4B, 0x04, 0x00]"

definition memberA :: File where
  "memberA =
     \<lparr>name = ''a.xml'', webkitRelativePath = [], fsize = 1, lastModified = 1700000000000,
      ftype = [], bytes = [0x61]\<rparr>"

definition emptyZip :: "byte list" where
  "emptyZip = [0x50, 0x4B, 0x05, 0x06] @ replicate 18 0x00"

text \<open>
  A stored (uncompressed) member \<^verbatim>\<open>b\<close> with the payload \<^verbatim>\<open>hi\<close>, the archive of \<^verbatim>\<open>a.xml\<close>
  followed by it, and that archive as a dropped file.
\<close>

definition storedMember :: "byte list" where
  "storedMember = localHeader 0x00 0x00 0x02 [0x62] @ [0x68, 0x69]"

definition zipTwo :: "byte list" where
  "zipTwo = zipOne @ storedMember"

definition archiveTwo :: File where
  "archiveTwo =
     \<lparr>name = ''forms.zip'', webkitRelativePath = [], fsize = 71,
      lastModified = 1700000000000, ftype = ''application/zip'', bytes = zipTwo\<rparr>"

text \<open>The archive of \<^verbatim>\<open>a.xml\<close> alone as a dropped file.\<close>

definition archiveOne :: File where
  "archiveOne =
     \<lparr>name = ''one.zip'', webkitRelativePath = [], fsize = 38,
      lastModified = 1700000000000, ftype = ''application/zip'', bytes = zipOne\<rparr>"

text \<open>
  A member \<^verbatim>\<open>b\<close> written in data-descriptor mode (bit 3 of the flag) whose descriptor is
  missing: the header is followed by four payload bytes and the end of the buffer.
\<close>

definition zipStreamed :: "byte list" where
  "zipStreamed = localHeader 0x08 0x08 0x00 [0x62] @ [0x4B, 0x04, 0x00, 0x00]"

text \<open>The same header with nothing after it.\<close>

definition headerOnly :: "byte list" where
  "headerOnly = localHeader 0x08 0x08 0x00 [0x62]"

text \<open>
  Dropped documents: \<^verbatim>\<open>A.xml\<close>, two versions of \<^verbatim>\<open>A.xsl\<close> with the titles v1 and v2,
  \<^verbatim>\<open>a.xml\<close>, \<^verbatim>\<open>A.XML\<close>, two files \<^verbatim>\<open>B.xml\<close> from two folders and two versions of
  \<^verbatim>\<open>B.xsl\<close> with the titles form and form2. The size of a file is the length of its
  content.
\<close>

definition sampleFile :: "string \<Rightarrow> string \<Rightarrow> int \<Rightarrow> byte list \<Rightarrow> File" where
  "sampleFile path fileName modified text =
     \<lparr>name = fileName, webkitRelativePath = path, fsize = length text,
      lastModified = modified, ftype = ''text/xml'', bytes = text\<rparr>"

definition aXml :: File where "aXml = sampleFile [] ''A.xml'' 2000 [0x3C, 0x61, 0x2F, 0x3E]"

definition aXslV1 :: File where "aXslV1 = sampleFile [] ''A.xsl'' 3000 (xslDocument [0x76, 0x31])"

definition aXslV2 :: File where "aXslV2 = sampleFile [] ''A.xsl'' 4000 (xslDocument [0x76, 0x32])"

definition lowerXml :: File where "lowerXml = sampleFile [] ''a.xml'' 1000 [0x3C, 0x61, 0x2F, 0x3E]"

definition upperXml :: File where "upperXml = sampleFile [] ''A.XML'' 2000 [0x3C, 0x61, 0x2F, 0x3E]"

definition bXml1 :: File where "bXml1 = sampleFile ''office1/B.xml'' ''B.xml'' 1000 [0x3C, 0x62, 0x2F, 0x3E]"

definition bXml2 :: File where "bXml2 = sampleFile ''office2/B.xml'' ''B.xml'' 1000 [0x3C, 0x62, 0x2F, 0x3E]"

definition bXsl :: File where "bXsl = sampleFile [] ''B.xsl'' 5000 (xslDocument [0x66, 0x6F, 0x72, 0x6D])"

definition bXslV2 :: File where "bXslV2 = sampleFile [] ''B.xsl'' 6000 (xslDocument [0x66, 0x6F, 0x72, 0x6D, 0x32])"

text \<open>Two sessions: a pair formed from two batches, and three batches that differ in case.\<close>

definition pairSession :: "event list" where
  "pairSession = [AddFiles [aXml], AddFiles [aXslV1]]"

definition caseSession :: "event list" where
  "caseSession = [AddFiles [lowerXml], AddFiles [aXslV1], AddFiles [aXml]]"

section \<open>Facts about the ZIP reader\<close>

lemma byte_bound: "unat (x :: byte) < 256"
  using unsigned_less [of x, where ?'a = nat] by simp

lemma digit_unique:
  fixes a b k x y :: nat
  assumes "a < k" "b < k" "a + k * x = b + k * y"
  shows "a = b \<and> x = y"
proof -
  have "(a + k * x) mod k = (b + k * y) mod k"
    using assms(3) by simp
  then have ab: "a = b"
    using assms(1,2) by simp
  then have "k * x = k * y"
    using assms(3) by simp
  then have "x = y"
    using assms(1) by simp
  with ab show ?thesis by simp
qed

lemma signature_digits:
  fixes p q r s :: nat
  assumes "p < 256" "q < 256" "r < 256" "s < 256"
    and h: "p + 256 * q + 65536 * r + 16777216 * s = 67324752"
  shows "p = 80 \<and> q = 75 \<and> r = 3 \<and> s = 4"
proof -
  have e1: "p + 256 * (q + 256 * (r + 256 * s)) = 80 + 256 * (75 + 256 * (3 + 256 * 4))"
    using h by simp
  have 1: "p = 80 \<and> q + 256 * (r + 256 * s) = 75 + 256 * (3 + 256 * 4)"
    by (rule digit_unique [OF assms(1) _ e1]) simp
  have 2: "q = 75 \<and> r + 256 * s = 3 + 256 * 4"
    by (rule digit_unique [OF assms(2) _ conjunct2 [OF 1]]) simp
  have 3: "r = 3 \<and> s = 4"
    by (rule digit_unique [OF assms(3) _ conjunct2 [OF 2]]) simp
  from 1 2 3 show ?thesis by blast
qed

lemma signature_bytes:
  fixes a b c d :: byte
  shows "(unat a + 256 * unat b + 65536 * unat c + 16777216 * unat d = 67324752)
            \<longleftrightarrow> (a = 0x50 \<and> b = 0x4B \<and> c = 0x03 \<and> d = 0x04)"
proof
  assume h: "unat a + 256 * unat b + 65536 * unat c + 16777216 * unat d = 67324752"
  have "unat a = 80 \<and> unat b = 75 \<and> unat c = 3 \<and> unat d = 4"
    using signature_digits [OF byte_bound byte_bound byte_bound byte_bound h] .
  then have "unat a = unat (0x50 :: byte) \<and> unat b = unat (0x4B :: byte)
      \<and> unat c = unat (0x03 :: byte) \<and> unat d = unat (0x04 :: byte)" by simp
  then show "a = 0x50 \<and> b = 0x4B \<and> c = 0x03 \<and> d = 0x04"
    using word_unat_eq_iff by blast
next
  assume "a = 0x50 \<and> b = 0x4B \<and> c = 0x03 \<and> d = 0x04"
  then show "unat a + 256 * unat b + 65536 * unat c + 16777216 * unat d = 67324752"
    by simp
qed

lemma first4:
  assumes "4 \<le> length buf"
  shows "take 4 buf = [buf ! 0, buf ! 1, buf ! 2, buf ! 3]"
proof -
  obtain a b c d rest where "buf = a # b # c # d # rest"
    using assms
    by (metis (no_types, opaque_lifting) Suc_le_length_iff numeral_Bit0 add_Suc_right
        add_Suc numeral_2_eq_2 One_nat_def add.right_neutral add_2_eq_Suc')
  then show ?thesis by simp
qed

lemma getUint32_signature_iff:
  assumes "4 \<le> length buf"
  shows "getUint32 buf 0 = Inr 0x04034b50 \<longleftrightarrow> take 4 buf = [0x50, 0x4B, 0x03, 0x04]"
  using assms by (simp add: getUint32_def first4 signature_bytes numeral_2_eq_2)

lemma getUint32_short:
  "length buf < offset + 4 \<Longrightarrow> getUint32 buf offset = Inl RangeError"
  by (simp add: getUint32_def)

text \<open>The result of the call is the result of the loop from any state the walk visits.\<close>

lemma visits_result:
  "visits env buf offset files \<Longrightarrow> decompressZip env buf = decompressLoop env buf offset files"
proof (induction rule: visits.induct)
  case visits_start
  show ?case by (simp add: decompressZip_def)
next
  case (visits_directory offset files pathName dataOffset offset' compressedSize)
  then show ?case
    by (simp add: decompressLoop.simps [of env buf offset])
next
  case (visits_member offset files pathName dataOffset offset' compressedSize decompressedData)
  then show ?case
    by (simp add: decompressLoop.simps [of env buf offset])
qed

text \<open>The descriptor scan: without a signature ahead it ends in a range error, and at the end of the buffer it does not run.\<close>

lemma scanDescriptor_missing:
  assumes "offset < length buf"
    and "\<And>i. offset \<le> i \<Longrightarrow> i + 4 \<le> length buf \<Longrightarrow> getUint32 buf i \<noteq> Inr 0x08074b50"
  shows "scanDescriptor buf offset cs = Inl RangeError"
  using assms
proof (induction buf offset cs rule: scanDescriptor.induct)
  case (1 buf offset compressedSize)
  show ?case
  proof (cases "offset + 4 \<le> length buf")
    case False
    then show ?thesis
      using "1.prems"(1) by (simp add: scanDescriptor.simps [of buf offset] getUint32_short)
  next
    case True
    then obtain v where v: "getUint32 buf offset = Inr v"
      by (simp add: getUint32_def)
    have nv: "v \<noteq> 0x08074b50"
      using v "1.prems"(2) [of offset] True by auto
    have "scanDescriptor buf (offset + 1) compressedSize = Inl RangeError"
      using "1.IH" [OF "1.prems"(1) v nv] True "1.prems"(2) by simp
    then show ?thesis
      using "1.prems"(1) v nv by (simp add: scanDescriptor.simps [of buf offset])
  qed
qed

lemma scanDescriptor_at_end:
  "length buf \<le> offset \<Longrightarrow> scanDescriptor buf offset cs = Inr (offset, cs)"
  by (simp add: scanDescriptor.simps [of buf offset])

lemma slice_beyond: "length buf \<le> start \<Longrightarrow> slice buf start stop = []"
  by (simp add: slice_def)

text \<open>Evaluation of the sample decoder and of the walk over the sample archives.\<close>

lemma sampleEnv_sel:
  "inflate sampleEnv = sampleInflate" "decodeText sampleEnv = decodeLatin1"
  "extractTitle sampleEnv = sampleTitle" "extractJigyousho sampleEnv = (\<lambda>text. [])"
  "dateNow sampleEnv c = 1700000000000 + c" "fileNow sampleEnv off = 1700000000000"
  by (simp_all add: sampleEnv_def)

lemma decodeLatin1_Nil: "decodeLatin1 [] = []"
  by (simp add: decodeLatin1_def)

lemma decodeLatin1_a_xml: "decodeLatin1 [0x61, 0x2E, 0x78, 0x6D, 0x6C] = ''a.xml''"
  by (simp add: decodeLatin1_def char_of_def bit_0)

lemma stripDirs_a_xml: "stripDirs ''a.xml'' = ''a.xml''"
  by (simp add: stripDirs.simps isLineTerminator_def)

lemma readEntry_zipOne:
  "readEntry sampleEnv (zipOne @ tail) 0 = Inr (Some (''a.xml'', 35, 38, 3))"
  by (simp add: readEntry_def zipOne_def localHeader_def getUint32_def getUint16_def
      sampleEnv_sel slice_def decodeLatin1_a_xml)

lemma decompressLoop_zipOne:
  "decompressLoop sampleEnv (zipOne @ tail) 0 [] = decompressLoop sampleEnv (zipOne @ tail) 38 [memberA]"
proof -
  have "slice (zipOne @ tail) 35 38 = [0x4B, 0x04, 0x00]"
    by (simp add: zipOne_def localHeader_def slice_def)
  moreover have "0 < length (zipOne @ tail)"
    by (simp add: zipOne_def localHeader_def)
  ultimately show ?thesis
    by (simp add: decompressLoop.simps [of sampleEnv "zipOne @ tail" 0] readEntry_zipOne
        endsWithSlash_def stripDirs_a_xml newFile_def memberA_def sampleEnv_sel
        sampleInflate_def)
qed

lemma decompressZip_zipOne: "decompressZip sampleEnv zipOne = Inr [memberA]"
  using decompressLoop_zipOne [of "[]"]
  by (simp add: decompressZip_def decompressLoop.simps [of sampleEnv zipOne 38])
     (simp add: zipOne_def localHeader_def)

lemma decodeLatin1_b: "decodeLatin1 [0x62] = ''b''"
  by (simp add: decodeLatin1_def char_of_def bit_0)

lemma stripDirs_b: "stripDirs ''b'' = ''b''"
  by (simp add: stripDirs.simps isLineTerminator_def)

lemma visits_zipOne: "visits sampleEnv (zipOne @ tail) 38 [memberA]"
proof -
  have "slice (zipOne @ tail) 35 38 = [0x4B, 0x04, 0x00]"
    by (simp add: zipOne_def localHeader_def slice_def)
  then have inf: "inflate sampleEnv (slice (zipOne @ tail) 35 (35 + 3)) = Some [0x61]"
    by (simp add: sampleEnv_sel sampleInflate_def)
  have len: "0 < length (zipOne @ tail)"
    by (simp add: zipOne_def localHeader_def)
  have nd: "\<not> endsWithSlash ''a.xml''"
    by (simp add: endsWithSlash_def)
  have "visits sampleEnv (zipOne @ tail) 38
          ([] @ [newFile (fileNow sampleEnv 35) (stripDirs ''a.xml'') [0x61]])"
    by (rule visits_member [OF visits_start len readEntry_zipOne nd inf])
  then show ?thesis
    by (simp add: newFile_def memberA_def sampleEnv_sel stripDirs_a_xml)
qed

lemma readEntry_zipTwo:
  "readEntry sampleEnv zipTwo 38 = Inr (Some (''b'', 69, 71, 2))"
  by (simp add: readEntry_def zipTwo_def zipOne_def storedMember_def localHeader_def
      getUint32_def getUint16_def sampleEnv_sel slice_def decodeLatin1_b)

lemma inflate_zipTwo: "inflate sampleEnv (slice zipTwo 69 (69 + 2)) = None"
  by (simp add: zipTwo_def zipOne_def storedMember_def localHeader_def slice_def
      sampleEnv_sel sampleInflate_def)

lemma length_zipTwo: "length zipTwo = 71"
  by (simp add: zipTwo_def zipOne_def storedMember_def localHeader_def)

lemma readEntry_streamed_header:
  "getUint32 (zipOne @ zipStreamed) 38 = Inr 0x04034b50"
  "getUint16 (zipOne @ zipStreamed) (38 + 6) = Inr 8"
  "getUint16 (zipOne @ zipStreamed) (38 + 26) = Inr 1"
  "getUint16 (zipOne @ zipStreamed) (38 + 28) = Inr 0"
  "length zipOne = 38" "length zipStreamed = 35"
  by (simp_all add: zipOne_def zipStreamed_def localHeader_def getUint32_def getUint16_def)

lemma headerOnly_header:
  "getUint32 headerOnly 0 = Inr 0x04034b50"
  "getUint16 headerOnly (0 + 6) = Inr 8"
  "getUint16 headerOnly (0 + 26) = Inr 1"
  "getUint16 headerOnly (0 + 28) = Inr 0"
  "length headerOnly = 31"
  "decodeText sampleEnv (slice headerOnly (0 + 30) (0 + 30 + 1)) = ''b''"
  by (simp_all add: headerOnly_def localHeader_def getUint32_def getUint16_def slice_def
      sampleEnv_sel decodeLatin1_b)

section \<open>Claims about the ZIP reader\<close>

text \<open>
  C5, as stated: the failure of one member is confined to it and the caller receives the
  siblings. It is false: the archive of the deflated \<^verbatim>\<open>a.xml\<close> alone yields that member,
  and the same archive followed by a stored member yields the error and no member at
  all; the batch that holds the archive ends with the error, and \<^verbatim>\<open>a.xml\<close> reaches
  neither the pairs nor the pool.
\<close>

theorem decompress_failure_not_confined:
  "decompressZip sampleEnv zipOne = Inr [memberA]
   \<and> decompressZip sampleEnv zipTwo = Inl DecompressError
   \<and> fst (addFilesToStorage sampleEnv [archiveTwo] initialState) = Some DecompressError
   \<and> fileStorage (snd (addFilesToStorage sampleEnv [archiveTwo] initialState)) = []
   \<and> xmlPool (snd (addFilesToStorage sampleEnv [archiveTwo] initialState)) ''a'' = None"
proof -
  have "decompressLoop sampleEnv zipTwo 38 [memberA] = Inl DecompressError"
    using readEntry_zipTwo inflate_zipTwo
    by (simp add: decompressLoop.simps [of sampleEnv zipTwo 38] length_zipTwo endsWithSlash_def)
  then have two: "decompressZip sampleEnv zipTwo = Inl DecompressError"
    using decompressLoop_zipOne [of storedMember] by (simp add: decompressZip_def zipTwo_def)
  have zip: "isZipFile archiveTwo"
    by (simp add: isZipFile_def archiveTwo_def)
  have "addFilesToStorage sampleEnv [archiveTwo] initialState =
          (Some DecompressError,
           initialState\<lparr>processedFileKeys := {fileKey archiveTwo}\<rparr>)"
    using two zip
    by (simp add: addFilesToStorage_def initialState_def) (simp add: archiveTwo_def)
  then show ?thesis
    using two decompressZip_zipOne by (simp add: initialState_def)
qed

text \<open>
  C5, amended. A member whose payload fails to inflate ends the whole call: whenever the
  walk reaches such a member, whatever member files it has collected, \<^verbatim>\<open>decompressZip\<close>
  as a whole is the decompression error and returns no member file.
\<close>

theorem decompress_failure_aborts:
  assumes "visits env buf offset files"
    and "offset < length buf"
    and "readEntry env buf offset = Inr (Some (pathName, dataOffset, offset', compressedSize))"
    and "\<not> endsWithSlash pathName"
    and "inflate env (slice buf dataOffset (dataOffset + compressedSize)) = None"
  shows "decompressZip env buf = Inl DecompressError"
  using visits_result [OF assms(1)] assms(2-5)
  by (simp add: decompressLoop.simps [of env buf offset])

theorem decompress_failure_aborts_witness:
  "visits sampleEnv zipTwo 38 [memberA] \<and> 38 < length zipTwo
   \<and> readEntry sampleEnv zipTwo 38 = Inr (Some (''b'', 69, 71, 2))
   \<and> \<not> endsWithSlash ''b''
   \<and> inflate sampleEnv (slice zipTwo 69 (69 + 2)) = None
   \<and> decompressZip sampleEnv zipTwo = Inl DecompressError"
proof -
  have v: "visits sampleEnv zipTwo 38 [memberA]"
    using visits_zipOne [of storedMember] by (simp add: zipTwo_def)
  have l: "38 < length zipTwo" by (simp add: length_zipTwo)
  have d: "\<not> endsWithSlash ''b''" by (simp add: endsWithSlash_def)
  show ?thesis
    using v l d readEntry_zipTwo inflate_zipTwo
      decompress_failure_aborts [OF v l readEntry_zipTwo d inflate_zipTwo]
    by simp
qed

text \<open>
  C6, as stated: when the descriptor signature of an entry in data-descriptor mode never
  appears, the call ends without an error. It is false: on a header followed by four
  payload bytes and the end of the buffer the call is a \<^verbatim>\<open>RangeError\<close>.
\<close>

theorem missing_descriptor_is_range_error:
  "decompressZip sampleEnv zipStreamed = Inl RangeError"
proof -
  have len: "length zipStreamed = 35"
    by (simp add: zipStreamed_def localHeader_def)
  have none: "getUint32 zipStreamed i \<noteq> Inr 0x08074b50"
    if "31 \<le> i" "i + 4 \<le> length zipStreamed" for i
  proof -
    have "i = 31" using that by (simp add: len)
    then show ?thesis
      by (simp add: zipStreamed_def localHeader_def getUint32_def)
  qed
  have "scanDescriptor zipStreamed 31 0 = Inl RangeError"
    by (rule scanDescriptor_missing) (simp_all add: len none)
  then have "readEntry sampleEnv zipStreamed 0 = Inl RangeError"
    by (simp add: readEntry_def zipStreamed_def localHeader_def getUint32_def getUint16_def)
  then show ?thesis
    by (simp add: decompressZip_def decompressLoop.simps [of sampleEnv zipStreamed 0] len)
qed

text \<open>
  C6, amended. Let the walk reach an entry in data-descriptor mode whose descriptor
  signature appears nowhere from the start of its data on. If at least one byte follows
  its header, the scan reads four bytes at an offset with fewer than four bytes left and
  the whole call is a \<^verbatim>\<open>RangeError\<close>, with no member file returned. If nothing follows
  the header, the scan does not run and the walk ends after this entry: a directory entry
  adds nothing, any other entry is inflated from the empty payload, which fails the call
  or adds one member file.
\<close>

theorem missing_descriptor_throws:
  assumes "visits env buf offset files"
    and "getUint32 buf offset = Inr 0x04034b50"
    and "getUint16 buf (offset + 6) = Inr generalPurposeFlag"
    and "generalPurposeFlag AND 8 \<noteq> 0"
    and "getUint16 buf (offset + 26) = Inr fileNameLength"
    and "getUint16 buf (offset + 28) = Inr extraFieldLength"
    and "dataOffset = offset + (fileNameLength + extraFieldLength + 30)"
    and "pathName = decodeText env (slice buf (offset + 30) (offset + 30 + fileNameLength))"
    and "\<And>i. dataOffset \<le> i \<Longrightarrow> i + 4 \<le> length buf \<Longrightarrow> getUint32 buf i \<noteq> Inr 0x08074b50"
  shows "(dataOffset < length buf \<longrightarrow> decompressZip env buf = Inl RangeError)
       \<and> (length buf \<le> dataOffset \<longrightarrow>
            decompressZip env buf =
              (if endsWithSlash pathName then Inr files
               else (case inflate env [] of
                       None \<Rightarrow> Inl DecompressError
                     | Some decompressedData \<Rightarrow>
                         Inr (files @ [newFile (fileNow env dataOffset) (stripDirs pathName)
                                         decompressedData]))))"
proof -
  have lo: "offset + 30 \<le> length buf"
    using assms(6) by (simp add: getUint16_def split: if_splits)
  then obtain cs where cs: "getUint32 buf (offset + 18) = Inr cs"
    by (simp add: getUint32_def)
  have off: "offset < length buf"
    using lo by simp
  have dz: "decompressZip env buf = decompressLoop env buf offset files"
    by (rule visits_result [OF assms(1)])
  have a: "decompressZip env buf = Inl RangeError" if "dataOffset < length buf"
  proof -
    have "scanDescriptor buf dataOffset cs = Inl RangeError"
      using that assms(9) by (rule scanDescriptor_missing)
    then have "readEntry env buf offset = Inl RangeError"
      using assms(2-7) cs by (simp add: readEntry_def)
    then show ?thesis
      using off dz by (simp add: decompressLoop.simps [of env buf offset])
  qed
  have b: "decompressZip env buf =
              (if endsWithSlash pathName then Inr files
               else (case inflate env [] of
                       None \<Rightarrow> Inl DecompressError
                     | Some decompressedData \<Rightarrow>
                         Inr (files @ [newFile (fileNow env dataOffset) (stripDirs pathName)
                                         decompressedData])))"
    if "length buf \<le> dataOffset"
  proof -
    have "readEntry env buf offset = Inr (Some (pathName, dataOffset, dataOffset, cs))"
      using assms(2-8) cs that by (simp add: readEntry_def scanDescriptor_at_end Let_def)
    moreover have "decompressLoop env buf dataOffset fs = Inr fs" for fs
      using that by (simp add: decompressLoop.simps [of env buf dataOffset])
    ultimately show ?thesis
      using off dz that
      by (simp add: decompressLoop.simps [of env buf offset] slice_beyond split: option.splits)
  qed
  show ?thesis using a b by blast
qed

theorem missing_descriptor_throws_witness:
  "decompressZip sampleEnv (zipOne @ zipStreamed) = Inl RangeError
   \<and> decompressZip sampleEnv headerOnly = Inl DecompressError"
proof -
  have bit: "(8 :: nat) AND 8 \<noteq> 0" by simp
  have none: "getUint32 (zipOne @ zipStreamed) i \<noteq> Inr 0x08074b50"
    if "69 \<le> i" "i + 4 \<le> length (zipOne @ zipStreamed)" for i
  proof -
    have "i = 69" using that by (simp add: readEntry_streamed_header)
    then show ?thesis
      by (simp add: zipOne_def zipStreamed_def localHeader_def getUint32_def)
  qed
  have 1: "decompressZip sampleEnv (zipOne @ zipStreamed) = Inl RangeError"
    using missing_descriptor_throws [OF visits_zipOne [of zipStreamed]
        readEntry_streamed_header(1,2) bit readEntry_streamed_header(3,4) _ refl,
        where dataOffset = 69] none
    by (simp add: readEntry_streamed_header)
  have none': "getUint32 headerOnly i \<noteq> Inr 0x08074b50"
    if "31 \<le> i" "i + 4 \<le> length headerOnly" for i
    using that by (simp add: headerOnly_header)
  have 2: "decompressZip sampleEnv headerOnly = Inl DecompressError"
    using missing_descriptor_throws [OF visits_start headerOnly_header(1,2) bit
        headerOnly_header(3,4) _ headerOnly_header(6) [symmetric], where dataOffset = 31] none'
    by (simp add: headerOnly_header endsWithSlash_def sampleEnv_sel sampleInflate_def)
  show ?thesis using 1 2 by simp
qed

text \<open>
  C7. A buffer whose first four bytes are not the little-endian local-file-header
  signature \<open>50 4B 03 04\<close> yields the empty list of member files, and no error: the first
  pass of the loop reads the signature and breaks.
\<close>

theorem decompressZip_foreign_signature:
  assumes "4 \<le> length buf" and "take 4 buf \<noteq> [0x50, 0x4B, 0x03, 0x04]"
  shows "decompressZip env buf = Inr []"
proof -
  obtain v where v: "getUint32 buf 0 = Inr v"
    using assms(1) by (simp add: getUint32_def)
  have "v \<noteq> 0x04034b50"
    using v assms getUint32_signature_iff [of buf] by auto
  then have "readEntry env buf 0 = Inr None"
    using v by (simp add: readEntry_def)
  then show ?thesis
    using assms(1) by (simp add: decompressZip_def decompressLoop.simps [of env buf 0])
qed

theorem decompressZip_foreign_signature_witness:
  "4 \<le> length emptyZip \<and> take 4 emptyZip \<noteq> [0x50, 0x4B, 0x03, 0x04]
   \<and> decompressZip sampleEnv emptyZip = Inr []"
proof -
  have 1: "4 \<le> length emptyZip" by (simp add: emptyZip_def)
  have 2: "take 4 emptyZip \<noteq> [0x50, 0x4B, 0x03, 0x04]" by (simp add: emptyZip_def)
  show ?thesis
    using 1 2 decompressZip_foreign_signature [OF 1 2, of sampleEnv] by simp
qed

text \<open>
  C9. The reader is not total. On a non-empty buffer of fewer than four bytes the call
  throws a \<^verbatim>\<open>RangeError\<close>; and whenever the outer loop or the descriptor scan stands at an
  offset with one to three bytes left, the four-byte read there throws, whatever member
  files have been collected: when the walk reaches such an offset, the call itself is the
  \<^verbatim>\<open>RangeError\<close>.
\<close>

theorem decompressZip_not_total:
  "(0 < length buf \<and> length buf < 4 \<longrightarrow> decompressZip env buf = Inl RangeError) \<and>
   (offset < length buf \<and> length buf < offset + 4 \<longrightarrow>
      decompressLoop env buf offset files = Inl RangeError \<and>
      scanDescriptor buf offset compressedSize = Inl RangeError \<and>
      (visits env buf offset files \<longrightarrow> decompressZip env buf = Inl RangeError))"
proof -
  have loop: "decompressLoop env buf off fs = Inl RangeError"
    if "off < length buf" "length buf < off + 4" for off fs
    using that
    by (simp add: decompressLoop.simps [of env buf off] readEntry_def getUint32_short)
  have scan: "scanDescriptor buf off cs = Inl RangeError"
    if "off < length buf" "length buf < off + 4" for off cs
    using that
    by (simp add: scanDescriptor.simps [of buf off] getUint32_short)
  show ?thesis
    using loop [of 0 "[]"] loop [of offset files] scan [of offset compressedSize]
      visits_result [of env buf offset files]
    by (simp add: decompressZip_def)
qed

theorem decompressZip_not_total_witness:
  "decompressZip sampleEnv [0x50, 0x4B] = Inl RangeError
   \<and> decompressLoop sampleEnv (zipOne @ [0x50, 0x4B]) 38 [memberA] = Inl RangeError
   \<and> scanDescriptor (zipOne @ [0x50, 0x4B]) 38 0 = Inl RangeError
   \<and> decompressZip sampleEnv (zipOne @ [0x50, 0x4B]) = Inl RangeError
   \<and> decompressZip sampleEnv zipOne = Inr [memberA]"
proof -
  have len: "length (zipOne @ [0x50, 0x4B]) = 40"
    by (simp add: zipOne_def localHeader_def)
  have 1: "decompressZip sampleEnv [0x50, 0x4B] = Inl RangeError"
    using decompressZip_not_total [of "[0x50, 0x4B]" sampleEnv 0 "[]" 0] by simp
  have 2: "decompressLoop sampleEnv (zipOne @ [0x50, 0x4B]) 38 [memberA] = Inl RangeError
           \<and> scanDescriptor (zipOne @ [0x50, 0x4B]) 38 0 = Inl RangeError
           \<and> decompressZip sampleEnv (zipOne @ [0x50, 0x4B]) = Inl RangeError"
    using decompressZip_not_total [of "zipOne @ [0x50, 0x4B]" sampleEnv 38 "[memberA]" 0] len
      visits_zipOne [of "[0x50, 0x4B]"]
    by simp
  show ?thesis
    using 1 2 decompressZip_zipOne by simp
qed

section \<open>Facts about the gate on processed keys\<close>

lemma collectLoop_all_seen:
  "\<forall>f \<in> set files. fileKey f \<in> keys \<Longrightarrow> collectLoop env files i keys acc = (keys, Inr acc)"
  by (induction files arbitrary: i) simp_all

lemma pairFiles_Nil: "pairFiles env [] s = s"
  by (simp add: pairFiles_def xslFilesOf_def xmlFilesOf_def)

lemma addFiles_all_seen:
  "\<forall>f \<in> set files. fileKey f \<in> processedFileKeys s \<Longrightarrow> addFilesToStorage env files s = (None, s)"
  by (simp add: addFilesToStorage_def collectLoop_all_seen pairFiles_Nil)

lemma collectLoop_keys:
  "collectLoop env files i keys acc = (keys', Inr items) \<Longrightarrow> keys' = keys \<union> fileKey ` set files"
proof (induction files arbitrary: i keys acc)
  case Nil
  then show ?case by simp
next
  case (Cons f files)
  then show ?case
    by (auto split: if_splits sum.splits)
qed

lemma storePair_keys [simp]: "processedFileKeys (storePair env b x d j src s) = processedFileKeys s"
  by (simp add: storePair_def)

lemma foldl_storePair_keys [simp]:
  "processedFileKeys (foldl (\<lambda>s' p. storePair env b (pooledFile p) d (pooledJigyoushoName p) (pooledSource p) s') s ps)
     = processedFileKeys s"
  by (induction ps arbitrary: s) simp_all

lemma processXml_keys [simp]: "processedFileKeys (processXml env s item) = processedFileKeys s"
  by (simp add: processXml_def Let_def split: option.splits)

lemma drainPool_keys [simp]: "processedFileKeys (drainPool env s b) = processedFileKeys s"
  by (simp add: drainPool_def split: option.splits)

lemma processXsl_keys [simp]:
  "processedFileKeys (fst (processXsl env acc item)) = processedFileKeys (fst acc)"
  by (simp add: processXsl_def Let_def)

lemma foldl_processXsl_keys [simp]:
  "processedFileKeys (fst (foldl (processXsl env) acc items)) = processedFileKeys (fst acc)"
  by (induction items arbitrary: acc) simp_all

lemma foldl_processXml_keys [simp]:
  "processedFileKeys (foldl (processXml env) s items) = processedFileKeys s"
  by (induction items arbitrary: s) simp_all

lemma foldl_drainPool_keys [simp]:
  "processedFileKeys (foldl (drainPool env) s bs) = processedFileKeys s"
  by (induction bs arbitrary: s) simp_all

lemma pairFiles_keys [simp]: "processedFileKeys (pairFiles env items s) = processedFileKeys s"
  by (simp add: pairFiles_def Let_def)

lemma addFiles_redrop:
  assumes "addFilesToStorage env files s = (None, s1)"
  shows "addFilesToStorage env files s1 = (None, s1)"
proof -
  obtain keys r where c: "collectLoop env files 0 (processedFileKeys s) [] = (keys, r)"
    by (cases "collectLoop env files 0 (processedFileKeys s) []")
  show ?thesis
  proof (cases r)
    case (Inl e)
    then show ?thesis using assms c by (simp add: addFilesToStorage_def)
  next
    case (Inr items)
    then have "s1 = pairFiles env items (s\<lparr>processedFileKeys := keys\<rparr>)"
      using assms c by (simp add: addFilesToStorage_def)
    then have "processedFileKeys s1 = keys" by simp
    moreover have "keys = processedFileKeys s \<union> fileKey ` set files"
      using c Inr collectLoop_keys by blast
    ultimately have "\<forall>f \<in> set files. fileKey f \<in> processedFileKeys s1" by simp
    then show ?thesis by (rule addFiles_all_seen)
  qed
qed

section \<open>Pair keys determine their counter\<close>

lemma digit_cases:
  "d < 10 \<Longrightarrow> d = 0 \<or> d = 1 \<or> d = 2 \<or> d = 3 \<or> d = 4 \<or> d = 5 \<or> d = 6 \<or> d = 7 \<or> d = 8 \<or> d = (9::nat)"
  by arith

lemma digitChar_props:
  assumes "d < 10"
  shows "isDigit (digitChar d)" and "digitVal (digitChar d) = d"
  using digit_cases [OF assms]
  by (auto simp: digitChar_def isDigit_def digitVal_def)

lemma showNat_digits: "list_all isDigit (showNat n)"
proof (induction n rule: showNat.induct)
  case (1 n)
  then show ?case
    by (subst showNat.simps) (simp add: digitChar_props)
qed

lemma readNat_showNat: "readNat (showNat n) = n"
proof (induction n rule: showNat.induct)
  case (1 n)
  show ?case
  proof (cases "n < 10")
    case True
    then show ?thesis
      by (subst showNat.simps) (simp add: readNat_def digitChar_props)
  next
    case False
    then have "readNat (showNat (n div 10)) = n div 10"
      using 1 by simp
    then show ?thesis
      using False
      by (subst showNat.simps) (simp add: readNat_def digitChar_props)
  qed
qed

lemma showNat_inj: "showNat m = showNat n \<Longrightarrow> m = n"
  by (metis readNat_showNat)

lemma digits_suffix_unique:
  assumes "list_all isDigit ds" "list_all isDigit ds'"
    and "x @ CHR ''_'' # ds = x' @ CHR ''_'' # ds'"
  shows "x = x' \<and> ds = ds'"
proof -
  have u: "\<not> isDigit CHR ''_''" by (simp add: isDigit_def)
  have r: "takeWhile isDigit (rev (y @ CHR ''_'' # es)) = rev es" if "list_all isDigit es" for y es
    using that u by (simp add: takeWhile_tail list_all_iff)
  have "rev ds = rev ds'"
    using r [OF assms(1), of x] r [OF assms(2), of x'] assms(3) by simp
  then have "ds = ds'" by simp
  then show ?thesis using assms(3) by simp
qed

lemma uniqueKeyOf_inj:
  assumes "uniqueKeyOf b c t = uniqueKeyOf b' c' t'"
  shows "b = b' \<and> c = c' \<and> t = t'"
proof -
  have 1: "(b @ CHR ''_'' # showNat c) @ CHR ''_'' # showNat t
           = (b' @ CHR ''_'' # showNat c') @ CHR ''_'' # showNat t'"
    using assms by (simp add: uniqueKeyOf_def)
  have 2: "b @ CHR ''_'' # showNat c = b' @ CHR ''_'' # showNat c' \<and> showNat t = showNat t'"
    by (rule digits_suffix_unique [OF showNat_digits showNat_digits 1])
  have 3: "b = b' \<and> showNat c = showNat c'"
    by (rule digits_suffix_unique [OF showNat_digits showNat_digits conjunct1 [OF 2]])
  show ?thesis
    using 2 3 showNat_inj by blast
qed

section \<open>The invariants hold in every session\<close>

lemma foldl_preserves:
  assumes "P s" and "\<forall>x \<in> set xs. Q x" and "\<And>s x. P s \<Longrightarrow> Q x \<Longrightarrow> P (f s x)"
  shows "P (foldl f s xs)"
  using assms(1,2)
  by (induction xs arbitrary: s) (simp_all add: assms(3))

lemma list_all_mapSet:
  "P (k, v) \<Longrightarrow> list_all P kvs \<Longrightarrow> list_all P (mapSet k v kvs)"
  by (induction kvs) auto

lemma mapSet_fresh: "k \<notin> fst ` set kvs \<Longrightarrow> mapSet k v kvs = kvs @ [(k, v)]"
  by (induction kvs) auto

lemma endsWith_removeExtension:
  "endsWith s ext \<Longrightarrow> s = removeExtension ext s @ ext"
  by (simp add: endsWith_def removeExtension_def) (metis append_take_drop_id)

lemma classify_xml: "classify s = XmlDocument \<Longrightarrow> s = removeExtension ''.xml'' s @ ''.xml''"
  by (rule endsWith_removeExtension) (simp add: classify_def split: if_splits)

lemma classify_xsl: "classify s = XslDocument \<Longrightarrow> s = removeExtension ''.xsl'' s @ ''.xsl''"
  by (rule endsWith_removeExtension) (simp add: classify_def split: if_splits)

lemma storePair_namesAgree:
  assumes "namesAgree s" "name x = b @ ''.xml''" "name (xslFile d) = b @ ''.xsl''"
  shows "namesAgree (storePair env b x d j src s)"
  using assms by (simp add: namesAgree_def storePair_def list_all_mapSet pairedByName_def)

lemma processXsl_namesAgree:
  assumes "namesAgree (fst acc)" "classify (name (itemFile item)) = XslDocument"
  shows "namesAgree (fst (processXsl env acc item))"
proof -
  define base where "base = removeExtension ''.xsl'' (name (itemFile item))"
  have nm: "name (itemFile item) = base @ ''.xsl''"
    unfolding base_def by (rule classify_xsl [OF assms(2)])
  have eq: "fst (processXsl env acc item) =
      (fst acc)\<lparr>xslCache := (xslCache (fst acc))(base \<mapsto>
         \<lparr>xslFile = itemFile item, xslTitle = extractTitle env (bytes (itemFile item))\<rparr>)\<rparr>"
    by (simp only: processXsl_def Let_def base_def fst_conv)
  show ?thesis
    unfolding eq using assms(1) nm by (simp add: namesAgree_def)
qed

lemma processXml_namesAgree:
  assumes "namesAgree s" "classify (name (itemFile item)) = XmlDocument"
  shows "namesAgree (processXml env s item)"
proof -
  define base where "base = removeExtension ''.xml'' (name (itemFile item))"
  define jig where "jig = extractJigyousho env (bytes (itemFile item))"
  have nm: "name (itemFile item) = base @ ''.xml''"
    unfolding base_def by (rule classify_xml [OF assms(2)])
  have eq: "processXml env s item =
      (case xslCache s base of
         Some xslD \<Rightarrow> storePair env base (itemFile item) xslD jig (itemSource item) s
       | None \<Rightarrow>
           s\<lparr>xmlPool := (xmlPool s)(base \<mapsto>
                (case xmlPool s base of None \<Rightarrow> [] | Some pooled \<Rightarrow> pooled)
                @ [\<lparr>pooledFile = itemFile item, pooledJigyoushoName = jig,
                    pooledSource = itemSource item\<rparr>])\<rparr>)"
    by (simp only: processXml_def Let_def base_def jig_def)
  show ?thesis
  proof (cases "xslCache s base")
    case None
    have "list_all (\<lambda>p. name (pooledFile p) = base @ ''.xml'')
            (case xmlPool s base of None \<Rightarrow> [] | Some pooled \<Rightarrow> pooled)"
      using assms(1) by (simp add: namesAgree_def split: option.splits)
    then show ?thesis
      unfolding eq using None assms(1) nm by (simp add: namesAgree_def)
  next
    case (Some d)
    have "name (xslFile d) = base @ ''.xsl''"
      using assms(1) Some by (simp add: namesAgree_def)
    then show ?thesis
      unfolding eq using Some assms(1) nm by (simp add: storePair_namesAgree)
  qed
qed

lemma foldl_storePair_namesAgree:
  assumes "namesAgree s" "name (xslFile d) = b @ ''.xsl''"
    "list_all (\<lambda>p. name (pooledFile p) = b @ ''.xml'') ps"
  shows "namesAgree (foldl (\<lambda>s' p. storePair env b (pooledFile p) d (pooledJigyoushoName p) (pooledSource p) s') s ps)"
  using assms
  by (induction ps arbitrary: s) (simp_all add: storePair_namesAgree)

lemma namesAgree_pool_delete:
  "namesAgree s \<Longrightarrow> xmlPool s' = (xmlPool s0)(b := None) \<Longrightarrow> xmlPool s = xmlPool s0 \<Longrightarrow>
   fileStorage s' = fileStorage s \<Longrightarrow> xslCache s' = xslCache s \<Longrightarrow> namesAgree s'"
  by (auto simp: namesAgree_def)

lemma storePair_pool [simp]: "xmlPool (storePair env b x d j src s) = xmlPool s"
  and storePair_cache [simp]: "xslCache (storePair env b x d j src s) = xslCache s"
  by (simp_all add: storePair_def)

lemma foldl_storePair_pool [simp]:
  "xmlPool (foldl (\<lambda>s' p. storePair env b (pooledFile p) d (pooledJigyoushoName p) (pooledSource p) s') s ps) = xmlPool s"
  by (induction ps arbitrary: s) simp_all

lemma foldl_storePair_cache [simp]:
  "xslCache (foldl (\<lambda>s' p. storePair env b (pooledFile p) d (pooledJigyoushoName p) (pooledSource p) s') s ps) = xslCache s"
  by (induction ps arbitrary: s) simp_all

lemma drainPool_namesAgree:
  assumes "namesAgree s"
  shows "namesAgree (drainPool env s b)"
proof (cases "xmlPool s b")
  case None
  then show ?thesis using assms by (simp add: drainPool_def)
next
  case (Some ps)
  show ?thesis
  proof (cases "xslCache s b")
    case None
    then show ?thesis using assms Some by (simp add: drainPool_def)
  next
    case d: (Some d)
    have 1: "name (xslFile d) = b @ ''.xsl''"
      using assms d by (simp add: namesAgree_def)
    have 2: "list_all (\<lambda>p. name (pooledFile p) = b @ ''.xml'') ps"
      using assms Some by (simp add: namesAgree_def)
    have 3: "namesAgree (foldl (\<lambda>s' p. storePair env b (pooledFile p) d (pooledJigyoushoName p) (pooledSource p) s') s ps)"
      by (rule foldl_storePair_namesAgree [OF assms 1 2])
    show ?thesis
      using assms Some d
      by (auto simp: drainPool_def intro: namesAgree_pool_delete [OF 3])
  qed
qed

lemma pairFiles_namesAgree:
  assumes "namesAgree s"
  shows "namesAgree (pairFiles env items s)"
proof -
  have 1: "namesAgree (fst (foldl (processXsl env) (s, []) (xslFilesOf items)))"
    by (rule foldl_preserves [where P = "\<lambda>acc. namesAgree (fst acc)"
          and Q = "\<lambda>item. classify (name (itemFile item)) = XslDocument"])
       (simp_all add: assms xslFilesOf_def processXsl_namesAgree)
  have 2: "namesAgree (foldl (processXml env) (fst (foldl (processXsl env) (s, []) (xslFilesOf items)))
             (xmlFilesOf items))"
    by (rule foldl_preserves [where P = namesAgree
          and Q = "\<lambda>item. classify (name (itemFile item)) = XmlDocument"])
       (simp_all add: 1 xmlFilesOf_def processXml_namesAgree)
  show ?thesis
    unfolding pairFiles_def Let_def
    by (rule foldl_preserves [where P = namesAgree and Q = "\<lambda>b. True"])
       (simp_all add: 2 drainPool_namesAgree)
qed

lemma namesAgree_keys_update [simp]:
  "namesAgree (s\<lparr>processedFileKeys := k\<rparr>) = namesAgree s"
  by (simp add: namesAgree_def)

lemma addFiles_namesAgree:
  "namesAgree s \<Longrightarrow> namesAgree (snd (addFilesToStorage env files s))"
  by (simp add: addFilesToStorage_def pairFiles_namesAgree split: prod.splits sum.splits)

lemma step_namesAgree: "namesAgree s \<Longrightarrow> namesAgree (step env s ev)"
proof (cases ev)
  case (AddFiles files)
  assume "namesAgree s"
  then show ?thesis using AddFiles by (simp add: addFiles_namesAgree)
next
  case (ClearPairView c)
  assume "namesAgree s"
  then show ?thesis using ClearPairView by (simp add: clearPairView_def namesAgree_def)
next
  case (ClearListView c)
  assume "namesAgree s"
  then show ?thesis using ClearListView by (simp add: clearListView_def namesAgree_def)
next
  case BackToTop
  assume "namesAgree s"
  then show ?thesis using BackToTop by (simp add: backToTop_def namesAgree_def)
next
  case (DeletePair c k)
  assume "namesAgree s"
  then show ?thesis using DeletePair
    by (auto simp: deletePair_def namesAgree_def list_all_iff)
qed

lemma run_namesAgree: "namesAgree (run env events)"
  unfolding run_def
  by (rule foldl_preserves [where P = namesAgree and Q = "\<lambda>ev. True"])
     (simp_all add: step_namesAgree, simp add: namesAgree_def initialState_def)

lemma storePair_keysBelow:
  assumes "keysBelowCounter s"
  shows "keysBelowCounter (storePair env b x d j src s)"
proof -
  have "list_all (\<lambda>kv. \<exists>c t. c < fileIdCounter s + 1 \<and> fst kv = uniqueKeyOf (basename (snd kv)) c t)
          (fileStorage s)"
    using assms unfolding keysBelowCounter_def list_all_iff
    by (metis less_SucI Suc_eq_plus1)
  moreover have "\<exists>c t. c < fileIdCounter s + 1 \<and>
      uniqueKeyOf b (fileIdCounter s) (dateNow env (fileIdCounter s)) = uniqueKeyOf b c t"
    by (intro exI [of _ "fileIdCounter s"] exI [of _ "dateNow env (fileIdCounter s)"]) simp
  ultimately show ?thesis
    by (simp add: keysBelowCounter_def storePair_def list_all_mapSet)
qed

lemma processXsl_keysBelow:
  "keysBelowCounter (fst acc) \<Longrightarrow> keysBelowCounter (fst (processXsl env acc item))"
  by (simp add: processXsl_def Let_def keysBelowCounter_def)

lemma processXml_keysBelow:
  "keysBelowCounter s \<Longrightarrow> keysBelowCounter (processXml env s item)"
  by (simp add: processXml_def Let_def storePair_keysBelow split: option.splits)
     (simp add: keysBelowCounter_def)

lemma foldl_storePair_keysBelow:
  "keysBelowCounter s \<Longrightarrow>
   keysBelowCounter (foldl (\<lambda>s' p. storePair env b (pooledFile p) d (pooledJigyoushoName p) (pooledSource p) s') s ps)"
  by (induction ps arbitrary: s) (simp_all add: storePair_keysBelow)

lemma drainPool_keysBelow:
  assumes "keysBelowCounter s"
  shows "keysBelowCounter (drainPool env s b)"
proof -
  have "keysBelowCounter (t\<lparr>xmlPool := m\<rparr>) = keysBelowCounter t" for t m
    by (simp add: keysBelowCounter_def)
  then show ?thesis
    using assms by (simp add: drainPool_def foldl_storePair_keysBelow split: option.splits)
qed

lemma pairFiles_keysBelow:
  assumes "keysBelowCounter s"
  shows "keysBelowCounter (pairFiles env items s)"
proof -
  have 1: "keysBelowCounter (fst (foldl (processXsl env) (s, []) (xslFilesOf items)))"
    by (rule foldl_preserves [where P = "\<lambda>acc. keysBelowCounter (fst acc)" and Q = "\<lambda>item. True"])
       (simp_all add: assms processXsl_keysBelow)
  have 2: "keysBelowCounter (foldl (processXml env) (fst (foldl (processXsl env) (s, []) (xslFilesOf items)))
             (xmlFilesOf items))"
    by (rule foldl_preserves [where P = keysBelowCounter and Q = "\<lambda>item. True"])
       (simp_all add: 1 processXml_keysBelow)
  show ?thesis
    unfolding pairFiles_def Let_def
    by (rule foldl_preserves [where P = keysBelowCounter and Q = "\<lambda>b. True"])
       (simp_all add: 2 drainPool_keysBelow)
qed

lemma addFiles_keysBelow:
  "keysBelowCounter s \<Longrightarrow> keysBelowCounter (snd (addFilesToStorage env files s))"
proof -
  have k: "keysBelowCounter (t\<lparr>processedFileKeys := m\<rparr>) = keysBelowCounter t" for t m
    by (simp add: keysBelowCounter_def)
  show "keysBelowCounter s \<Longrightarrow> keysBelowCounter (snd (addFilesToStorage env files s))"
    by (simp add: addFilesToStorage_def pairFiles_keysBelow k split: prod.splits sum.splits)
qed

lemma step_keysBelow:
  assumes "keysBelowCounter s"
  shows "keysBelowCounter (step env s ev)"
proof (cases ev)
  case (AddFiles files)
  then show ?thesis using assms by (simp add: addFiles_keysBelow)
next
  case (ClearPairView c)
  then show ?thesis using assms by (simp add: clearPairView_def keysBelowCounter_def)
next
  case (ClearListView c)
  then show ?thesis using assms by (simp add: clearListView_def keysBelowCounter_def)
next
  case BackToTop
  then show ?thesis using assms by (simp add: backToTop_def keysBelowCounter_def)
next
  case (DeletePair c k)
  then show ?thesis using assms by (auto simp: deletePair_def keysBelowCounter_def list_all_iff)
qed

lemma run_keysBelow: "keysBelowCounter (run env events)"
  unfolding run_def
  by (rule foldl_preserves [where P = keysBelowCounter and Q = "\<lambda>ev. True"])
     (simp_all add: step_keysBelow, simp add: keysBelowCounter_def initialState_def)

lemma storePair_append:
  assumes "keysBelowCounter s"
  shows "fileStorage (storePair env b x d j src s) =
           fileStorage s @
           [(uniqueKeyOf b (fileIdCounter s) (dateNow env (fileIdCounter s)),
             \<lparr>basename = b, xml = x, xsl = xslFile d, title = xslTitle d, jigyoushoName = j,
              sourceInfo = src\<rparr>)]"
proof -
  have "uniqueKeyOf b (fileIdCounter s) (dateNow env (fileIdCounter s)) \<notin> fst ` set (fileStorage s)"
  proof
    assume "uniqueKeyOf b (fileIdCounter s) (dateNow env (fileIdCounter s)) \<in> fst ` set (fileStorage s)"
    then obtain kv where kv: "kv \<in> set (fileStorage s)"
      and e: "fst kv = uniqueKeyOf b (fileIdCounter s) (dateNow env (fileIdCounter s))"
      by auto
    obtain c t where "c < fileIdCounter s" "fst kv = uniqueKeyOf (basename (snd kv)) c t"
      using assms kv by (auto simp: keysBelowCounter_def list_all_iff)
    then show False
      using e uniqueKeyOf_inj by fastforce
  qed
  then show ?thesis
    by (simp add: storePair_def mapSet_fresh)
qed

lemma storePair_pairsCached:
  assumes "pairsCached s" "xslCache s b \<noteq> None"
  shows "pairsCached (storePair env b x d j src s)"
  using assms by (simp add: pairsCached_def storePair_def list_all_mapSet)

lemma processXsl_pairsCached:
  "pairsCached (fst acc) \<Longrightarrow> pairsCached (fst (processXsl env acc item))"
  by (simp add: processXsl_def Let_def pairsCached_def list_all_iff)

lemma processXml_pairsCached:
  "pairsCached s \<Longrightarrow> pairsCached (processXml env s item)"
  by (simp add: processXml_def Let_def storePair_pairsCached split: option.splits)
     (simp add: pairsCached_def)

lemma foldl_storePair_pairsCached:
  "pairsCached s \<Longrightarrow> xslCache s b \<noteq> None \<Longrightarrow>
   pairsCached (foldl (\<lambda>s' p. storePair env b (pooledFile p) d (pooledJigyoushoName p) (pooledSource p) s') s ps)"
  by (induction ps arbitrary: s) (simp_all add: storePair_pairsCached)

lemma drainPool_pairsCached:
  assumes "pairsCached s"
  shows "pairsCached (drainPool env s b)"
proof -
  have "pairsCached (t\<lparr>xmlPool := m\<rparr>) = pairsCached t" for t m
    by (simp add: pairsCached_def)
  then show ?thesis
    using assms by (simp add: drainPool_def foldl_storePair_pairsCached split: option.splits)
qed

lemma pairFiles_pairsCached:
  assumes "pairsCached s"
  shows "pairsCached (pairFiles env items s)"
proof -
  have 1: "pairsCached (fst (foldl (processXsl env) (s, []) (xslFilesOf items)))"
    by (rule foldl_preserves [where P = "\<lambda>acc. pairsCached (fst acc)" and Q = "\<lambda>item. True"])
       (simp_all add: assms processXsl_pairsCached)
  have 2: "pairsCached (foldl (processXml env) (fst (foldl (processXsl env) (s, []) (xslFilesOf items)))
             (xmlFilesOf items))"
    by (rule foldl_preserves [where P = pairsCached and Q = "\<lambda>item. True"])
       (simp_all add: 1 processXml_pairsCached)
  show ?thesis
    unfolding pairFiles_def Let_def
    by (rule foldl_preserves [where P = pairsCached and Q = "\<lambda>b. True"])
       (simp_all add: 2 drainPool_pairsCached)
qed

lemma addFiles_pairsCached:
  "pairsCached s \<Longrightarrow> pairsCached (snd (addFilesToStorage env files s))"
proof -
  have k: "pairsCached (t\<lparr>processedFileKeys := m\<rparr>) = pairsCached t" for t m
    by (simp add: pairsCached_def)
  show "pairsCached s \<Longrightarrow> pairsCached (snd (addFilesToStorage env files s))"
    by (simp add: addFilesToStorage_def pairFiles_pairsCached k split: prod.splits sum.splits)
qed

lemma step_pairsCached:
  assumes "pairsCached s"
  shows "pairsCached (step env s ev)"
proof (cases ev)
  case (AddFiles files)
  then show ?thesis using assms by (simp add: addFiles_pairsCached)
next
  case (ClearPairView c)
  then show ?thesis using assms by (simp add: clearPairView_def pairsCached_def)
next
  case (ClearListView c)
  then show ?thesis using assms by (simp add: clearListView_def pairsCached_def)
next
  case BackToTop
  then show ?thesis using assms by (simp add: backToTop_def pairsCached_def)
next
  case (DeletePair c k)
  then show ?thesis using assms by (auto simp: deletePair_def pairsCached_def list_all_iff)
qed

lemma run_pairsCached: "pairsCached (run env events)"
  unfolding run_def
  by (rule foldl_preserves [where P = pairsCached and Q = "\<lambda>ev. True"])
     (simp_all add: step_pairsCached, simp add: pairsCached_def initialState_def)

section \<open>The cache during the drain loop\<close>

lemma processXml_cache [simp]: "xslCache (processXml env s item) = xslCache s"
  by (simp add: processXml_def Let_def split: option.splits)

lemma drainPool_cache [simp]: "xslCache (drainPool env s b) = xslCache s"
  by (simp add: drainPool_def split: option.splits)

lemma foldl_processXml_cache [simp]: "xslCache (foldl (processXml env) s items) = xslCache s"
  by (induction items arbitrary: s) simp_all

lemma foldl_drainPool_cache [simp]: "xslCache (foldl (drainPool env) s bs) = xslCache s"
  by (induction bs arbitrary: s) simp_all

lemma processXsl_cached:
  assumes "\<forall>b \<in> set (snd acc). xslCache (fst acc) b \<noteq> None"
  shows "\<forall>b \<in> set (snd (foldl (processXsl env) acc items)).
           xslCache (fst (foldl (processXsl env) acc items)) b \<noteq> None"
  using assms
proof (induction items arbitrary: acc)
  case Nil
  then show ?case by simp
next
  case (Cons item items)
  have "\<forall>b \<in> set (snd (processXsl env acc item)). xslCache (fst (processXsl env acc item)) b \<noteq> None"
    using Cons.prems by (simp add: processXsl_def Let_def)
  then show ?case
    using Cons.IH [of "processXsl env acc item"] by simp
qed

lemma drain_lookup_never_misses:
  assumes "afterXsl = foldl (processXsl env) (s, []) (xslFilesOf processedFiles)"
    and "b \<in> set (snd afterXsl)"
  shows "xslCache (foldl (drainPool env)
            (foldl (processXml env) (fst afterXsl) (xmlFilesOf processedFiles)) drained) b \<noteq> None"
  using processXsl_cached [of "(s, [])" env "xslFilesOf processedFiles"] assms by simp

section \<open>Single batches\<close>

lemma endsWith_append [simp]: "endsWith (b @ ext) ext"
  by (simp add: endsWith_def)

lemma classify_xml_name [simp]: "classify (b @ ''.xml'') = XmlDocument"
  by (simp add: classify_def)

lemma classify_xsl_name [simp]: "classify (b @ ''.xsl'') = XslDocument"
proof -
  have "\<not> endsWith (b @ ''.xsl'') ''.xml''"
    by (simp add: endsWith_def)
  then show ?thesis by (simp add: classify_def)
qed

lemma removeExtension_append [simp]: "removeExtension ext (b @ ext) = b"
  by (simp add: removeExtension_def)

lemma addFiles_single_plain:
  assumes "fileKey f \<notin> processedFileKeys s" "\<not> isZipFile f"
  shows "addFilesToStorage env [f] s =
           (None, pairFiles env [plainItem f 0]
                    (s\<lparr>processedFileKeys := insert (fileKey f) (processedFileKeys s)\<rparr>))"
  using assms by (simp add: addFilesToStorage_def)

lemma addFiles_two_plain:
  assumes "fileKey f \<notin> processedFileKeys s" "\<not> isZipFile f"
    "fileKey g \<notin> processedFileKeys s" "\<not> isZipFile g" "fileKey g \<noteq> fileKey f"
  shows "addFilesToStorage env [f, g] s =
           (None, pairFiles env [plainItem f 0, plainItem g 1]
                    (s\<lparr>processedFileKeys := insert (fileKey g) (insert (fileKey f) (processedFileKeys s))\<rparr>))"
  using assms by (simp add: addFilesToStorage_def)

lemma pairFiles_xml_only:
  assumes "\<forall>item \<in> set items. classify (name (itemFile item)) = XmlDocument"
  shows "pairFiles env items s = foldl (processXml env) s items"
proof -
  have "xslFilesOf items = []" "xmlFilesOf items = items"
    using assms by (auto simp: xslFilesOf_def xmlFilesOf_def filter_empty_conv)
  then show ?thesis by (simp add: pairFiles_def)
qed

lemma pairFiles_single_xsl:
  assumes "classify (name (itemFile item)) = XslDocument"
  shows "pairFiles env [item] s =
           drainPool env (fst (processXsl env (s, []) item))
             (removeExtension ''.xsl'' (name (itemFile item)))"
  using assms by (simp add: pairFiles_def xslFilesOf_def xmlFilesOf_def processXsl_def Let_def)

lemma itemFile_plainItem [simp]: "itemFile (plainItem f i) = f"
  by (simp add: plainItem_def)

lemma processXml_pooled:
  assumes "name x = b @ ''.xml''" "xslCache s b = None"
  shows "processXml env s (plainItem x i) =
           s\<lparr>xmlPool := (xmlPool s)(b \<mapsto>
                (case xmlPool s b of None \<Rightarrow> [] | Some pooled \<Rightarrow> pooled)
                @ [\<lparr>pooledFile = x, pooledJigyoushoName = extractJigyousho env (bytes x),
                    pooledSource = itemSource (plainItem x i)\<rparr>])\<rparr>"
  using assms by (simp add: processXml_def)

lemma xsl_batch:
  assumes "name v = b @ ''.xsl''"
  shows "pairFiles env [plainItem v i] s =
           drainPool env
             (s\<lparr>xslCache := (xslCache s)(b \<mapsto> \<lparr>xslFile = v, xslTitle = extractTitle env (bytes v)\<rparr>)\<rparr>) b"
  using assms by (simp add: pairFiles_single_xsl processXsl_def)

lemma no_pairs_of_unseen:
  assumes "pairsCached s" "xslCache s b = None"
  shows "filter (\<lambda>kv. basename (snd kv) = b) (fileStorage s) = []"
  using assms by (auto simp: pairsCached_def list_all_iff filter_empty_conv)

lemma pooled_then_xsl:
  assumes kb: "keysBelowCounter s"
    and pool: "xmlPool s b = Some [p]"
    and nm: "name v = b @ ''.xsl''"
    and key: "fileKey v \<notin> processedFileKeys s" and plain: "\<not> isZipFile v"
  shows "fileStorage (snd (addFilesToStorage env [v] s)) =
           fileStorage s @
             [(uniqueKeyOf b (fileIdCounter s) (dateNow env (fileIdCounter s)),
               \<lparr>basename = b, xml = pooledFile p, xsl = v, title = extractTitle env (bytes v),
                jigyoushoName = pooledJigyoushoName p, sourceInfo = pooledSource p\<rparr>)]"
    and "xmlPool (snd (addFilesToStorage env [v] s)) = (xmlPool s)(b := None)"
    and "xslCache (snd (addFilesToStorage env [v] s)) =
           (xslCache s)(b \<mapsto> \<lparr>xslFile = v, xslTitle = extractTitle env (bytes v)\<rparr>)"
    and "fileIdCounter (snd (addFilesToStorage env [v] s)) = fileIdCounter s + 1"
    and "processedFileKeys (snd (addFilesToStorage env [v] s)) = insert (fileKey v) (processedFileKeys s)"
proof -
  define t where "t = s\<lparr>processedFileKeys := insert (fileKey v) (processedFileKeys s),
      xslCache := (xslCache s)(b \<mapsto> \<lparr>xslFile = v, xslTitle = extractTitle env (bytes v)\<rparr>)\<rparr>"
  have kt: "keysBelowCounter t"
    using kb by (simp add: keysBelowCounter_def t_def)
  have r: "snd (addFilesToStorage env [v] s) =
      (storePair env b (pooledFile p) \<lparr>xslFile = v, xslTitle = extractTitle env (bytes v)\<rparr>
         (pooledJigyoushoName p) (pooledSource p) t)\<lparr>xmlPool := (xmlPool t)(b := None)\<rparr>"
    using pool by (simp add: addFiles_single_plain [OF key plain] xsl_batch [OF nm] drainPool_def t_def)
  show "fileStorage (snd (addFilesToStorage env [v] s)) =
           fileStorage s @
             [(uniqueKeyOf b (fileIdCounter s) (dateNow env (fileIdCounter s)),
               \<lparr>basename = b, xml = pooledFile p, xsl = v, title = extractTitle env (bytes v),
                jigyoushoName = pooledJigyoushoName p, sourceInfo = pooledSource p\<rparr>)]"
    unfolding r using storePair_append [OF kt] by (simp add: t_def)
  show "xmlPool (snd (addFilesToStorage env [v] s)) = (xmlPool s)(b := None)"
    unfolding r by (simp add: t_def)
  show "xslCache (snd (addFilesToStorage env [v] s)) =
           (xslCache s)(b \<mapsto> \<lparr>xslFile = v, xslTitle = extractTitle env (bytes v)\<rparr>)"
    unfolding r by (simp add: t_def)
  show "fileIdCounter (snd (addFilesToStorage env [v] s)) = fileIdCounter s + 1"
    unfolding r by (simp add: t_def storePair_def)
  show "processedFileKeys (snd (addFilesToStorage env [v] s)) = insert (fileKey v) (processedFileKeys s)"
    unfolding r by (simp add: t_def)
qed

lemma xml_alone_pooled:
  assumes nm: "name x = b @ ''.xml''" and cache: "xslCache s b = None"
    and key: "fileKey x \<notin> processedFileKeys s" and plain: "\<not> isZipFile x"
  shows "snd (addFilesToStorage env [x] s) =
           s\<lparr>processedFileKeys := insert (fileKey x) (processedFileKeys s),
             xmlPool := (xmlPool s)(b \<mapsto>
                (case xmlPool s b of None \<Rightarrow> [] | Some pooled \<Rightarrow> pooled)
                @ [\<lparr>pooledFile = x, pooledJigyoushoName = extractJigyousho env (bytes x),
                    pooledSource = itemSource (plainItem x 0)\<rparr>])\<rparr>"
  using cache
  by (simp add: addFiles_single_plain [OF key plain] pairFiles_xml_only nm processXml_pooled [OF nm])

lemma xsl_alone_no_pool:
  assumes nm: "name v = b @ ''.xsl''" and pool: "xmlPool s b = None"
    and key: "fileKey v \<notin> processedFileKeys s" and plain: "\<not> isZipFile v"
  shows "snd (addFilesToStorage env [v] s) =
           s\<lparr>processedFileKeys := insert (fileKey v) (processedFileKeys s),
             xslCache := (xslCache s)(b \<mapsto> \<lparr>xslFile = v, xslTitle = extractTitle env (bytes v)\<rparr>)\<rparr>"
  using pool
  by (simp add: addFiles_single_plain [OF key plain] xsl_batch [OF nm] drainPool_def)

lemma foldl_storePair_append:
  assumes "keysBelowCounter s"
  shows "fileStorage (foldl (\<lambda>s' p. storePair env b (pooledFile p) d (pooledJigyoushoName p) (pooledSource p) s') s ps)
           = fileStorage s @
             map (\<lambda>cp. (uniqueKeyOf b (fst cp) (dateNow env (fst cp)), pooledPair b d (snd cp)))
               (enumerate (fileIdCounter s) ps)"
  using assms
proof (induction ps arbitrary: s)
  case Nil
  show ?case by simp
next
  case (Cons p ps)
  have c: "fileIdCounter (storePair env b (pooledFile p) d (pooledJigyoushoName p) (pooledSource p) s)
            = Suc (fileIdCounter s)"
    by (simp add: storePair_def)
  show ?case
    using Cons.IH [OF storePair_keysBelow [OF Cons.prems]]
    by (simp add: c storePair_append [OF Cons.prems] pooledPair_def)
qed

lemma pool_then_xsl:
  assumes kb: "keysBelowCounter s"
    and pool: "xmlPool s b = Some ps" and ne: "ps \<noteq> []"
    and nm: "name v = b @ ''.xsl''"
    and key: "fileKey v \<notin> processedFileKeys s" and plain: "\<not> isZipFile v"
  shows "fileStorage (snd (addFilesToStorage env [v] s)) =
           fileStorage s @
             map (\<lambda>cp. (uniqueKeyOf b (fst cp) (dateNow env (fst cp)),
                        pooledPair b \<lparr>xslFile = v, xslTitle = extractTitle env (bytes v)\<rparr> (snd cp)))
               (enumerate (fileIdCounter s) ps)"
proof -
  define t where "t = s\<lparr>processedFileKeys := insert (fileKey v) (processedFileKeys s),
      xslCache := (xslCache s)(b \<mapsto> \<lparr>xslFile = v, xslTitle = extractTitle env (bytes v)\<rparr>)\<rparr>"
  have kt: "keysBelowCounter t"
    using kb by (simp add: keysBelowCounter_def t_def)
  have r: "snd (addFilesToStorage env [v] s) =
      (foldl (\<lambda>s' p. storePair env b (pooledFile p) \<lparr>xslFile = v, xslTitle = extractTitle env (bytes v)\<rparr>
         (pooledJigyoushoName p) (pooledSource p) s') t ps)\<lparr>xmlPool := (xmlPool t)(b := None)\<rparr>"
    using pool ne by (simp add: addFiles_single_plain [OF key plain] xsl_batch [OF nm] drainPool_def t_def)
  show ?thesis
    unfolding r using foldl_storePair_append [OF kt] by (simp add: t_def)
qed

lemma two_pooled_then_xsl:
  assumes kb: "keysBelowCounter s" and pc: "pairsCached s"
    and cache: "xslCache s b = None"
    and pool: "xmlPool s b = Some [p1, p2]"
    and nm: "name v = b @ ''.xsl''"
    and key: "fileKey v \<notin> processedFileKeys s" and plain: "\<not> isZipFile v"
  shows "\<exists>k1 k2 q1 q2.
           fileStorage (snd (addFilesToStorage env [v] s)) = fileStorage s @ [(k1, q1), (k2, q2)]
           \<and> filter (\<lambda>kv. basename (snd kv) = b) (fileStorage (snd (addFilesToStorage env [v] s)))
               = [(k1, q1), (k2, q2)]
           \<and> k1 \<noteq> k2
           \<and> xml q1 = pooledFile p1 \<and> xml q2 = pooledFile p2 \<and> xsl q1 = v \<and> xsl q2 = v"
proof -
  define d where "d = \<lparr>xslFile = v, xslTitle = extractTitle env (bytes v)\<rparr>"
  define c where "c = fileIdCounter s"
  have st: "fileStorage (snd (addFilesToStorage env [v] s)) =
      fileStorage s @ [(uniqueKeyOf b c (dateNow env c), pooledPair b d p1),
                       (uniqueKeyOf b (Suc c) (dateNow env (Suc c)), pooledPair b d p2)]"
    using pool_then_xsl [OF kb pool _ nm key plain, of env] by (simp add: d_def c_def)
  have none: "filter (\<lambda>kv. basename (snd kv) = b) (fileStorage s) = []"
    by (rule no_pairs_of_unseen [OF pc cache])
  have ne: "uniqueKeyOf b c (dateNow env c) \<noteq> uniqueKeyOf b (Suc c) (dateNow env (Suc c))"
    using uniqueKeyOf_inj [of b c "dateNow env c" b "Suc c" "dateNow env (Suc c)"] by auto
  show ?thesis
    unfolding st using none ne
    by (intro exI [of _ "uniqueKeyOf b c (dateNow env c)"]
          exI [of _ "uniqueKeyOf b (Suc c) (dateNow env (Suc c))"]
          exI [of _ "pooledPair b d p1"] exI [of _ "pooledPair b d p2"])
       (simp add: pooledPair_def d_def)
qed

lemma xml_alone_paired:
  assumes kb: "keysBelowCounter s"
    and nm: "name x = b @ ''.xml''" and cache: "xslCache s b = Some d"
    and key: "fileKey x \<notin> processedFileKeys s" and plain: "\<not> isZipFile x"
  shows "fileStorage (snd (addFilesToStorage env [x] s)) =
           fileStorage s @
             [(uniqueKeyOf b (fileIdCounter s) (dateNow env (fileIdCounter s)),
               \<lparr>basename = b, xml = x, xsl = xslFile d, title = xslTitle d,
                jigyoushoName = extractJigyousho env (bytes x),
                sourceInfo = itemSource (plainItem x 0)\<rparr>)]"
    and "xmlPool (snd (addFilesToStorage env [x] s)) = xmlPool s"
    and "xslCache (snd (addFilesToStorage env [x] s)) = xslCache s"
    and "processedFileKeys (snd (addFilesToStorage env [x] s)) = insert (fileKey x) (processedFileKeys s)"
proof -
  define t where "t = s\<lparr>processedFileKeys := insert (fileKey x) (processedFileKeys s)\<rparr>"
  have kt: "keysBelowCounter t"
    using kb by (simp add: keysBelowCounter_def t_def)
  have r: "snd (addFilesToStorage env [x] s) =
      storePair env b x d (extractJigyousho env (bytes x)) (itemSource (plainItem x 0)) t"
    using cache
    by (simp add: addFiles_single_plain [OF key plain] pairFiles_xml_only nm processXml_def t_def)
  show "fileStorage (snd (addFilesToStorage env [x] s)) =
           fileStorage s @
             [(uniqueKeyOf b (fileIdCounter s) (dateNow env (fileIdCounter s)),
               \<lparr>basename = b, xml = x, xsl = xslFile d, title = xslTitle d,
                jigyoushoName = extractJigyousho env (bytes x),
                sourceInfo = itemSource (plainItem x 0)\<rparr>)]"
    unfolding r using storePair_append [OF kt] by (simp add: t_def)
  show "xmlPool (snd (addFilesToStorage env [x] s)) = xmlPool s"
    unfolding r by (simp add: t_def)
  show "xslCache (snd (addFilesToStorage env [x] s)) = xslCache s"
    unfolding r by (simp add: t_def)
  show "processedFileKeys (snd (addFilesToStorage env [x] s)) = insert (fileKey x) (processedFileKeys s)"
    unfolding r by (simp add: t_def)
qed

section \<open>Accepted files\<close>

lemma acceptedFiles_first:
  "map snd (filter (\<lambda>p. fileKey (snd p) = k) (acceptedFiles files i keys))
     = (if k \<in> keys then []
        else (case find (\<lambda>g. fileKey g = k) files of None \<Rightarrow> [] | Some g \<Rightarrow> [g]))"
proof (induction files arbitrary: i keys)
  case Nil
  show ?case by simp
next
  case (Cons f files)
  show ?case
    using Cons.IH [of "i + 1" keys] Cons.IH [of "i + 1" "insert (fileKey f) keys"]
    by auto
qed

lemma collectLoop_accepted:
  assumes "\<forall>p \<in> set (acceptedFiles files i keys). isZipFile (snd p) \<longrightarrow> decompresses env (snd p)"
  shows "collectLoop env files i keys acc =
           (keys \<union> fileKey ` set files,
            Inr (acc @ concat (map (expandFile env) (acceptedFiles files i keys))))"
  using assms
proof (induction files arbitrary: i keys acc)
  case Nil
  show ?case by simp
next
  case (Cons f files)
  show ?case
  proof (cases "fileKey f \<in> keys")
    case True
    then have "insert (fileKey f) (keys \<union> fileKey ` set files) = keys \<union> fileKey ` set files"
      by auto
    then show ?thesis
      using True Cons.IH [of "i + 1" keys acc] Cons.prems by simp
  next
    case False
    have rest: "\<forall>p \<in> set (acceptedFiles files (i + 1) (insert (fileKey f) keys)).
                  isZipFile (snd p) \<longrightarrow> decompresses env (snd p)"
      using Cons.prems False by simp
    note ih = Cons.IH [OF rest]
    show ?thesis
    proof (cases "isZipFile f")
      case z: True
      then have "decompresses env f" using Cons.prems False by simp
      then obtain ms where ms: "decompressZip env (bytes f) = Inr ms"
        by (auto simp: decompresses_def split: sum.splits)
      show ?thesis
        using False z ms ih [of "acc @ map (zipItem f i) ms"]
        by (simp add: expandFile_def)
    next
      case z: False
      show ?thesis
        using False z ih [of "acc @ [plainItem f i]"]
        by (simp add: expandFile_def)
    qed
  qed
qed

lemma collectLoop_aborts:
  assumes "\<not> (\<forall>p \<in> set (acceptedFiles files i keys). isZipFile (snd p) \<longrightarrow> decompresses env (snd p))"
  shows "\<exists>keys' e. collectLoop env files i keys acc = (keys', Inl e)"
  using assms
proof (induction files arbitrary: i keys acc)
  case Nil
  then show ?case by simp
next
  case (Cons f files)
  show ?case
  proof (cases "fileKey f \<in> keys")
    case True
    then show ?thesis using Cons.IH [of "i + 1" keys acc] Cons.prems by simp
  next
    case False
    show ?thesis
    proof (cases "isZipFile f")
      case z: True
      show ?thesis
      proof (cases "decompressZip env (bytes f)")
        case (Inl e)
        then show ?thesis using False z by simp
      next
        case (Inr ms)
        then have "decompresses env f" by (simp add: decompresses_def)
        then have "\<not> (\<forall>p \<in> set (acceptedFiles files (i + 1) (insert (fileKey f) keys)).
                  isZipFile (snd p) \<longrightarrow> decompresses env (snd p))"
          using Cons.prems False by simp
        then show ?thesis
          using False z Inr Cons.IH [of "i + 1" "insert (fileKey f) keys" "acc @ map (zipItem f i) ms"]
          by simp
      qed
    next
      case z: False
      then have "\<not> (\<forall>p \<in> set (acceptedFiles files (i + 1) (insert (fileKey f) keys)).
                  isZipFile (snd p) \<longrightarrow> decompresses env (snd p))"
        using Cons.prems False by simp
      then show ?thesis
        using False z Cons.IH [of "i + 1" "insert (fileKey f) keys" "acc @ [plainItem f i]"]
        by simp
    qed
  qed
qed

lemma addFiles_accepted:
  assumes "\<forall>p \<in> set (acceptedFiles files 0 (processedFileKeys s)).
             isZipFile (snd p) \<longrightarrow> decompresses env (snd p)"
  shows "addFilesToStorage env files s =
           (None, pairFiles env
                    (concat (map (expandFile env) (acceptedFiles files 0 (processedFileKeys s))))
                    (s\<lparr>processedFileKeys := processedFileKeys s \<union> fileKey ` set files\<rparr>))"
  using collectLoop_accepted [OF assms, of "[]"] by (simp add: addFilesToStorage_def)

lemma addFiles_completes_iff:
  "(fst (addFilesToStorage env files s) = None)
     = (\<forall>p \<in> set (acceptedFiles files 0 (processedFileKeys s)).
          isZipFile (snd p) \<longrightarrow> decompresses env (snd p))"
proof (cases "\<forall>p \<in> set (acceptedFiles files 0 (processedFileKeys s)).
          isZipFile (snd p) \<longrightarrow> decompresses env (snd p)")
  case True
  then show ?thesis using addFiles_accepted [OF True] by simp
next
  case False
  obtain keys' e where "collectLoop env files 0 (processedFileKeys s) [] = (keys', Inl e)"
    using collectLoop_aborts [OF False, of "[]"] by blast
  then show ?thesis using False by (simp add: addFilesToStorage_def)
qed

lemma acceptedFiles_subset: "snd ` set (acceptedFiles files i keys) \<subseteq> set files"
proof (induction files arbitrary: i keys)
  case Nil
  show ?case by simp
next
  case (Cons f files)
  show ?case
    using Cons.IH [of "i + 1" keys] Cons.IH [of "i + 1" "insert (fileKey f) keys"]
    by auto
qed

lemma acceptedFiles_plain:
  assumes "\<forall>g \<in> set files. \<not> isZipFile g"
  shows "\<forall>p \<in> set (acceptedFiles files i keys). \<not> isZipFile (snd p)"
  using assms acceptedFiles_subset [of files i keys] by auto

lemma expandFile_plain:
  assumes "\<forall>p \<in> set ps. \<not> isZipFile (snd p)"
  shows "concat (map (expandFile env) ps) = map (\<lambda>p. plainItem (snd p) (fst p)) ps"
  using assms by (induction ps) (simp_all add: expandFile_def)

section \<open>The copies of an XML file that a session holds\<close>

lemma xmlCopies_keys [simp]: "xmlCopies (s\<lparr>processedFileKeys := k\<rparr>) x = xmlCopies s x"
  by (simp add: xmlCopies_def)

lemma xmlCopies_cache [simp]: "xmlCopies (s\<lparr>xslCache := c\<rparr>) x = xmlCopies s x"
  by (simp add: xmlCopies_def)

lemma processXsl_copies: "xmlCopies (fst (processXsl env acc item)) x = xmlCopies (fst acc) x"
  by (simp add: processXsl_def Let_def)

lemma foldl_processXsl_copies:
  "xmlCopies (fst (foldl (processXsl env) acc items)) x = xmlCopies (fst acc) x"
  by (induction items arbitrary: acc) (simp_all add: processXsl_copies)

lemma storePair_copies:
  assumes "keysBelowCounter s"
  shows "xmlCopies (storePair env b f d j src s) x = xmlCopies s x + (if f = x then 1 else 0)"
  using storePair_append [OF assms, of env b f d j src]
  by (simp add: xmlCopies_def)

lemma processXml_copies:
  assumes "keysBelowCounter s"
  shows "xmlCopies (processXml env s item) x = xmlCopies s x + (if itemFile item = x then 1 else 0)"
proof -
  define base where "base = removeExtension ''.xml'' (name (itemFile item))"
  define jig where "jig = extractJigyousho env (bytes (itemFile item))"
  define bx where "bx = removeExtension ''.xml'' (name x)"
  define old where "old = (case xmlPool s base of None \<Rightarrow> [] | Some pooled \<Rightarrow> pooled)"
  define px where "px = \<lparr>pooledFile = itemFile item, pooledJigyoushoName = jig,
                    pooledSource = itemSource item\<rparr>"
  have eq: "processXml env s item =
      (case xslCache s base of
         Some xslD \<Rightarrow> storePair env base (itemFile item) xslD jig (itemSource item) s
       | None \<Rightarrow> s\<lparr>xmlPool := (xmlPool s)(base \<mapsto> old @ [px])\<rparr>)"
    by (simp only: processXml_def Let_def base_def jig_def old_def px_def)
  show ?thesis
  proof (cases "xslCache s base")
    case None
    have r: "processXml env s item = s\<lparr>xmlPool := (xmlPool s)(base \<mapsto> old @ [px])\<rparr>"
      unfolding eq using None by simp
    show ?thesis
    proof (cases "bx = base")
      case True
      have "xmlCopies (s\<lparr>xmlPool := (xmlPool s)(base \<mapsto> old @ [px])\<rparr>) x
          = length (filter (\<lambda>kv. xml (snd kv) = x) (fileStorage s))
            + length (filter (\<lambda>p. pooledFile p = x) (old @ [px]))"
        using True by (simp add: xmlCopies_def bx_def [symmetric])
      moreover have "xmlCopies s x
          = length (filter (\<lambda>kv. xml (snd kv) = x) (fileStorage s))
            + length (filter (\<lambda>p. pooledFile p = x) old)"
        using True by (simp add: xmlCopies_def bx_def [symmetric] old_def split: option.splits)
      ultimately show ?thesis
        unfolding r by (simp add: px_def)
    next
      case False
      then have ne: "itemFile item \<noteq> x"
        by (auto simp: bx_def base_def)
      have "xmlCopies (s\<lparr>xmlPool := (xmlPool s)(base \<mapsto> old @ [px])\<rparr>) x = xmlCopies s x"
        using False by (simp add: xmlCopies_def bx_def [symmetric])
      then show ?thesis
        unfolding r using ne by simp
    qed
  next
    case (Some d)
    have r: "processXml env s item = storePair env base (itemFile item) d jig (itemSource item) s"
      unfolding eq using Some by simp
    show ?thesis
      unfolding r by (rule storePair_copies [OF assms])
  qed
qed

lemma foldl_processXml_copies:
  assumes "keysBelowCounter s"
  shows "xmlCopies (foldl (processXml env) s items) x
           = xmlCopies s x + length (filter (\<lambda>item. itemFile item = x) items)"
  using assms
proof (induction items arbitrary: s)
  case Nil
  show ?case by simp
next
  case (Cons item items)
  show ?case
    using Cons.IH [OF processXml_keysBelow [OF Cons.prems]] processXml_copies [OF Cons.prems, of env item x]
    by simp
qed

lemma foldl_storePair_copies:
  assumes "keysBelowCounter s"
  shows "length (filter (\<lambda>kv. xml (snd kv) = x)
           (fileStorage (foldl (\<lambda>s' p. storePair env b (pooledFile p) d (pooledJigyoushoName p) (pooledSource p) s') s ps)))
         = length (filter (\<lambda>kv. xml (snd kv) = x) (fileStorage s))
           + length (filter (\<lambda>p. pooledFile p = x) ps)"
  using assms
proof (induction ps arbitrary: s)
  case Nil
  show ?case by simp
next
  case (Cons p ps)
  show ?case
    using Cons.IH [OF storePair_keysBelow [OF Cons.prems]]
    by (simp add: storePair_append [OF Cons.prems])
qed

lemma drainPool_copies:
  assumes kb: "keysBelowCounter s" and na: "namesAgree s"
  shows "xmlCopies (drainPool env s b) x = xmlCopies s x"
proof (cases "xmlPool s b")
  case None
  then show ?thesis by (simp add: drainPool_def)
next
  case (Some ps)
  show ?thesis
  proof (cases "xslCache s b")
    case None
    then show ?thesis using Some by (simp add: drainPool_def)
  next
    case d: (Some d)
    show ?thesis
    proof (cases "ps = []")
      case True
      then show ?thesis using Some by (simp add: drainPool_def)
    next
      case False
      define t where "t = foldl (\<lambda>s' p. storePair env b (pooledFile p) d (pooledJigyoushoName p) (pooledSource p) s') s ps"
      have r: "drainPool env s b = t\<lparr>xmlPool := (xmlPool s)(b := None)\<rparr>"
        using Some d False by (simp add: drainPool_def t_def)
      have st: "length (filter (\<lambda>kv. xml (snd kv) = x) (fileStorage t))
         = length (filter (\<lambda>kv. xml (snd kv) = x) (fileStorage s))
           + length (filter (\<lambda>p. pooledFile p = x) ps)"
        unfolding t_def by (rule foldl_storePair_copies [OF kb])
      have names: "list_all (\<lambda>p. name (pooledFile p) = b @ ''.xml'') ps"
        using na Some by (simp add: namesAgree_def)
      show ?thesis
      proof (cases "removeExtension ''.xml'' (name x) = b")
        case True
        then show ?thesis
          unfolding r using st Some by (simp add: xmlCopies_def)
      next
        case other: False
        have "pooledFile p \<noteq> x" if "p \<in> set ps" for p
        proof
          assume "pooledFile p = x"
          then have "name x = b @ ''.xml''"
            using names that by (auto simp: list_all_iff)
          then show False using other by simp
        qed
        then have "filter (\<lambda>p. pooledFile p = x) ps = []"
          by (simp add: filter_empty_conv)
        then show ?thesis
          unfolding r using st other by (simp add: xmlCopies_def)
      qed
    qed
  qed
qed

lemma foldl_drainPool_copies:
  assumes "keysBelowCounter s" "namesAgree s"
  shows "xmlCopies (foldl (drainPool env) s bs) x = xmlCopies s x"
  using assms
proof (induction bs arbitrary: s)
  case Nil
  show ?case by simp
next
  case (Cons b bs)
  show ?case
    using Cons.IH [OF drainPool_keysBelow [OF Cons.prems(1)] drainPool_namesAgree [OF Cons.prems(2)]]
      drainPool_copies [OF Cons.prems]
    by simp
qed

lemma pairFiles_copies:
  assumes kb: "keysBelowCounter s" and na: "namesAgree s"
  shows "xmlCopies (pairFiles env items s) x
           = xmlCopies s x + length (filter (\<lambda>item. itemFile item = x) (xmlFilesOf items))"
proof -
  define s1 where "s1 = fst (foldl (processXsl env) (s, []) (xslFilesOf items))"
  define s2 where "s2 = foldl (processXml env) s1 (xmlFilesOf items)"
  have k1: "keysBelowCounter s1"
    unfolding s1_def
    by (rule foldl_preserves [where P = "\<lambda>acc. keysBelowCounter (fst acc)" and Q = "\<lambda>item. True"])
       (simp_all add: kb processXsl_keysBelow)
  have n1: "namesAgree s1"
    unfolding s1_def
    by (rule foldl_preserves [where P = "\<lambda>acc. namesAgree (fst acc)"
          and Q = "\<lambda>item. classify (name (itemFile item)) = XslDocument"])
       (simp_all add: na xslFilesOf_def processXsl_namesAgree)
  have k2: "keysBelowCounter s2"
    unfolding s2_def
    by (rule foldl_preserves [where P = keysBelowCounter and Q = "\<lambda>item. True"])
       (simp_all add: k1 processXml_keysBelow)
  have n2: "namesAgree s2"
    unfolding s2_def
    by (rule foldl_preserves [where P = namesAgree
          and Q = "\<lambda>item. classify (name (itemFile item)) = XmlDocument"])
       (simp_all add: n1 xmlFilesOf_def processXml_namesAgree)
  have c1: "xmlCopies s1 x = xmlCopies s x"
    unfolding s1_def by (simp add: foldl_processXsl_copies)
  have c2: "xmlCopies s2 x = xmlCopies s1 x + length (filter (\<lambda>item. itemFile item = x) (xmlFilesOf items))"
    unfolding s2_def by (rule foldl_processXml_copies [OF k1])
  have "pairFiles env items s = foldl (drainPool env) s2 (snd (foldl (processXsl env) (s, []) (xslFilesOf items)))"
    by (simp add: pairFiles_def Let_def s2_def s1_def)
  then show ?thesis
    using foldl_drainPool_copies [OF k2 n2] c1 c2 by simp
qed

lemma plain_items_of_file:
  assumes "classify (name x) = XmlDocument"
  shows "length (filter (\<lambda>item. itemFile item = x)
           (xmlFilesOf (map (\<lambda>p. plainItem (snd p) (fst p)) ps)))
         = length (filter (\<lambda>p. snd p = x) ps)"
  using assms by (induction ps) (auto simp: xmlFilesOf_def)

lemma filter_implied: "(\<And>y. P y \<Longrightarrow> Q y) \<Longrightarrow> filter P (filter Q ys) = filter P ys"
  by (induction ys) auto

lemma acceptedFiles_of_file:
  "length (filter (\<lambda>p. snd p = x) (acceptedFiles files i keys))
     = (if fileKey x \<notin> keys \<and> find (\<lambda>g. fileKey g = fileKey x) files = Some x then 1 else 0)"
proof -
  define qs where "qs = filter (\<lambda>p. fileKey (snd p) = fileKey x) (acceptedFiles files i keys)"
  have "filter (\<lambda>p. snd p = x) (acceptedFiles files i keys) = filter (\<lambda>p. snd p = x) qs"
    unfolding qs_def
    using filter_implied [of "\<lambda>p. snd p = x" "\<lambda>p. fileKey (snd p) = fileKey x"
        "acceptedFiles files i keys"]
    by simp
  then have "length (filter (\<lambda>p. snd p = x) (acceptedFiles files i keys))
      = length (filter (\<lambda>g. g = x) (map snd qs))"
    by (simp add: filter_map comp_def)
  also have "map snd qs = (if fileKey x \<in> keys then []
        else (case find (\<lambda>g. fileKey g = fileKey x) files of None \<Rightarrow> [] | Some g \<Rightarrow> [g]))"
    unfolding qs_def by (rule acceptedFiles_first)
  finally have e: "length (filter (\<lambda>p. snd p = x) (acceptedFiles files i keys))
      = length (filter (\<lambda>g. g = x) (if fileKey x \<in> keys then []
          else (case find (\<lambda>g. fileKey g = fileKey x) files of None \<Rightarrow> [] | Some g \<Rightarrow> [g])))" .
  show ?thesis
    unfolding e
    by (cases "fileKey x \<in> keys"; cases "find (\<lambda>g. fileKey g = fileKey x) files"; simp)
qed

lemma addFiles_plain_copies:
  assumes kb: "keysBelowCounter s" and na: "namesAgree s"
    and plain: "\<forall>g \<in> set files. \<not> isZipFile g"
    and xml: "classify (name x) = XmlDocument"
  shows "xmlCopies (snd (addFilesToStorage env files s)) x
           = xmlCopies s x
             + (if fileKey x \<notin> processedFileKeys s
                   \<and> find (\<lambda>g. fileKey g = fileKey x) files = Some x then 1 else 0)"
proof -
  define ps where "ps = acceptedFiles files 0 (processedFileKeys s)"
  define t where "t = s\<lparr>processedFileKeys := processedFileKeys s \<union> fileKey ` set files\<rparr>"
  have pl: "\<forall>p \<in> set ps. \<not> isZipFile (snd p)"
    unfolding ps_def by (rule acceptedFiles_plain [OF plain])
  then have "\<forall>p \<in> set ps. isZipFile (snd p) \<longrightarrow> decompresses env (snd p)"
    by simp
  then have r: "snd (addFilesToStorage env files s)
      = pairFiles env (map (\<lambda>p. plainItem (snd p) (fst p)) ps) t"
    unfolding ps_def t_def
    using addFiles_accepted [of files s env] expandFile_plain [OF pl [unfolded ps_def], of env]
    by simp
  have kt: "keysBelowCounter t" using kb by (simp add: keysBelowCounter_def t_def)
  have nt: "namesAgree t" using na by (simp add: t_def)
  have "xmlCopies (snd (addFilesToStorage env files s)) x
      = xmlCopies t x + length (filter (\<lambda>p. snd p = x) ps)"
    unfolding r using pairFiles_copies [OF kt nt, of env _ x] plain_items_of_file [OF xml, of ps]
    by simp
  then show ?thesis
    unfolding ps_def using acceptedFiles_of_file [of x files 0 "processedFileKeys s"]
    by (simp add: t_def)
qed

lemma processXml_pooled_item:
  assumes "name (itemFile item) = b @ ''.xml''" "xslCache s b = None"
  shows "processXml env s item =
           s\<lparr>xmlPool := (xmlPool s)(b \<mapsto>
                (case xmlPool s b of None \<Rightarrow> [] | Some pooled \<Rightarrow> pooled)
                @ [\<lparr>pooledFile = itemFile item,
                    pooledJigyoushoName = extractJigyousho env (bytes (itemFile item)),
                    pooledSource = itemSource item\<rparr>])\<rparr>"
  using assms by (simp add: processXml_def Let_def)

section \<open>The sample sessions\<close>

lemma sampleFile_sel [simp]:
  "name (sampleFile path fileName modified text) = fileName"
  "bytes (sampleFile path fileName modified text) = text"
  by (simp_all add: sampleFile_def)

lemma sampleFile_plain [simp]:
  "isZipFile (sampleFile path fileName modified text) = endsWith fileName ''.zip''"
  by (simp add: isZipFile_def sampleFile_def)

lemma sample_keys:
  "fileKey aXml = ''A.xml_4_2000''" "fileKey aXslV1 = ''A.xsl_24_3000''"
  "fileKey aXslV2 = ''A.xsl_24_4000''" "fileKey lowerXml = ''a.xml_4_1000''"
  by (simp_all add: fileKey_def aXml_def aXslV1_def aXslV2_def lowerXml_def sampleFile_def
      xslDocument_def showInt_def showNat.simps digitChar_def)

lemma sample_names:
  "name aXml = ''A'' @ ''.xml''" "name aXslV1 = ''A'' @ ''.xsl''" "name aXslV2 = ''A'' @ ''.xsl''"
  "name lowerXml = ''a'' @ ''.xml''"
  by (simp_all add: aXml_def aXslV1_def aXslV2_def lowerXml_def)

lemma sample_plain:
  "\<not> isZipFile aXml" "\<not> isZipFile aXslV1" "\<not> isZipFile aXslV2" "\<not> isZipFile lowerXml"
  by (simp_all add: aXml_def aXslV1_def aXslV2_def lowerXml_def endsWith_def)

lemma sample_titles:
  "extractTitle sampleEnv (bytes aXslV1) = ''v1''" "extractTitle sampleEnv (bytes aXslV2) = ''v2''"
  by (simp_all add: sampleEnv_sel aXslV1_def aXslV2_def sampleTitle_def xslDocument_def
      decodeLatin1_def char_of_def bit_0)

lemma sample_documents:
  "decodeLatin1 (bytes aXslV1) = ''<a><title>v1</title></a>''"
  "decodeLatin1 (bytes aXslV2) = ''<a><title>v2</title></a>''"
  by (simp_all add: aXslV1_def aXslV2_def xslDocument_def decodeLatin1_def char_of_def bit_0)

lemma run_Nil [simp]: "run env [] = initialState"
  by (simp add: run_def)

lemma sample_keys_b:
  "fileKey bXml1 = ''office1/B.xml_4_1000''" "fileKey bXml2 = ''office2/B.xml_4_1000''"
  "fileKey bXsl = ''B.xsl_26_5000''" "fileKey bXslV2 = ''B.xsl_27_6000''"
  by (simp_all add: fileKey_def bXml1_def bXml2_def bXsl_def bXslV2_def sampleFile_def
      xslDocument_def showInt_def showNat.simps digitChar_def)

lemma sample_names_b:
  "name bXml1 = ''B'' @ ''.xml''" "name bXml2 = ''B'' @ ''.xml''" "name bXsl = ''B'' @ ''.xsl''"
  "name bXslV2 = ''B'' @ ''.xsl''"
  by (simp_all add: bXml1_def bXml2_def bXsl_def bXslV2_def)

lemma sample_plain_b:
  "\<not> isZipFile bXml1" "\<not> isZipFile bXml2" "\<not> isZipFile bXsl" "\<not> isZipFile bXslV2"
  by (simp_all add: bXml1_def bXml2_def bXsl_def bXslV2_def endsWith_def)

lemma sample_titles_b:
  "extractTitle sampleEnv (bytes bXsl) = ''form''" "extractTitle sampleEnv (bytes bXslV2) = ''form2''"
  by (simp_all add: sampleEnv_sel bXsl_def bXslV2_def sampleTitle_def xslDocument_def
      decodeLatin1_def char_of_def bit_0)

lemma sample_classify:
  "classify (name aXml) = XmlDocument" "classify (name aXslV1) = XslDocument"
  "classify (name aXslV2) = XslDocument" "classify (name lowerXml) = XmlDocument"
  by (simp_all only: sample_names classify_xml_name classify_xsl_name)

lemma sample_base:
  "removeExtension ''.xml'' (name aXml) = ''A''" "removeExtension ''.xsl'' (name aXslV1) = ''A''"
  "removeExtension ''.xsl'' (name aXslV2) = ''A''" "removeExtension ''.xml'' (name lowerXml) = ''a''"
  by (simp_all only: sample_names removeExtension_append)

lemma toLowerCase_sample: "toLowerCase ''A.XML'' = ''a.xml''"
  by (simp add: toLowerCase_def toLowerCaseChar_def char_of_def bit_0)

lemma pairSession_state:
  "xslCache (run sampleEnv pairSession) =
     Map.empty(''A'' \<mapsto> \<lparr>xslFile = aXslV1, xslTitle = extractTitle sampleEnv (bytes aXslV1)\<rparr>)"
  "xmlPool (run sampleEnv pairSession) = Map.empty"
  "processedFileKeys (run sampleEnv pairSession) = {fileKey aXslV1, fileKey aXml}"
  "map (\<lambda>kv. (basename (snd kv), xml (snd kv), xsl (snd kv))) (fileStorage (run sampleEnv pairSession))
     = [(''A'', aXml, aXslV1)]"
proof -
  define s1 where "s1 = snd (addFilesToStorage sampleEnv [aXml] initialState)"
  define s2 where "s2 = snd (addFilesToStorage sampleEnv [aXslV1] s1)"
  have r: "run sampleEnv pairSession = s2"
    by (simp add: run_def pairSession_def s2_def s1_def)
  have e1: "s1 = initialState\<lparr>processedFileKeys := {fileKey aXml},
      xmlPool := Map.empty(''A'' \<mapsto>
        [\<lparr>pooledFile = aXml, pooledJigyoushoName = extractJigyousho sampleEnv (bytes aXml),
          pooledSource = itemSource (plainItem aXml 0)\<rparr>])\<rparr>"
    unfolding s1_def
    using xml_alone_pooled [OF sample_names(1) _ _ sample_plain(1), of initialState sampleEnv]
    by (simp add: initialState_def)
  have kb1: "keysBelowCounter s1"
    by (simp add: e1 keysBelowCounter_def initialState_def)
  have pool1: "xmlPool s1 ''A'' = Some
        [\<lparr>pooledFile = aXml, pooledJigyoushoName = extractJigyousho sampleEnv (bytes aXml),
          pooledSource = itemSource (plainItem aXml 0)\<rparr>]"
    by (simp add: e1)
  have key1: "fileKey aXslV1 \<notin> processedFileKeys s1"
    by (simp add: e1 sample_keys)
  note step2 = pooled_then_xsl [OF kb1 pool1 sample_names(2) key1 sample_plain(2), of sampleEnv,
      folded s2_def]
  show "xslCache (run sampleEnv pairSession) =
     Map.empty(''A'' \<mapsto> \<lparr>xslFile = aXslV1, xslTitle = extractTitle sampleEnv (bytes aXslV1)\<rparr>)"
    unfolding r using step2(3) by (simp add: e1 initialState_def)
  show "xmlPool (run sampleEnv pairSession) = Map.empty"
    unfolding r using step2(2) by (simp add: e1 initialState_def)
  show "processedFileKeys (run sampleEnv pairSession) = {fileKey aXslV1, fileKey aXml}"
    unfolding r using step2(5) by (simp add: e1)
  show "map (\<lambda>kv. (basename (snd kv), xml (snd kv), xsl (snd kv))) (fileStorage (run sampleEnv pairSession))
     = [(''A'', aXml, aXslV1)]"
    unfolding r using step2(1) by (simp add: e1 initialState_def)
qed

lemma decompressZip_zipTwo: "decompressZip sampleEnv zipTwo = Inl DecompressError"
proof -
  have "decompressLoop sampleEnv zipTwo 38 [memberA] = Inl DecompressError"
    using readEntry_zipTwo inflate_zipTwo
    by (simp add: decompressLoop.simps [of sampleEnv zipTwo 38] length_zipTwo endsWithSlash_def)
  then show ?thesis
    using decompressLoop_zipOne [of storedMember] by (simp add: decompressZip_def zipTwo_def)
qed

lemma sample_archives:
  "isZipFile archiveOne" "isZipFile archiveTwo"
  "bytes archiveOne = zipOne" "bytes archiveTwo = zipTwo"
  "fileKey archiveOne = ''one.zip_38_1700000000000''"
  "fileKey archiveTwo = ''forms.zip_71_1700000000000''"
  by (simp_all add: isZipFile_def archiveOne_def archiveTwo_def fileKey_def
      showInt_def showNat.simps digitChar_def)

lemma memberA_name: "name memberA = ''a'' @ ''.xml''"
  by (simp add: memberA_def)

lemma decompresses_archiveOne: "decompresses sampleEnv archiveOne"
  by (simp add: decompresses_def sample_archives decompressZip_zipOne)

lemma accepted_sample:
  "acceptedFiles [aXml, archiveOne, aXml] 0 (processedFileKeys initialState)
     = [(0, aXml), (1, archiveOne)]"
  by (simp add: initialState_def sample_keys sample_archives)

lemma expand_sample:
  "concat (map (expandFile sampleEnv) [(0, aXml), (1, archiveOne)])
     = [plainItem aXml 0, zipItem archiveOne 1 memberA]"
  by (simp add: expandFile_def sample_plain sample_archives decompressZip_zipOne)

lemma memberA_classify: "classify (name memberA) = XmlDocument"
  by (simp add: memberA_def classify_def endsWith_def)

lemma pool_sample:
  "map pooledFile (case xmlPool (pairFiles sampleEnv [plainItem aXml i, zipItem archiveOne j memberA]
       (initialState\<lparr>processedFileKeys := ks\<rparr>)) ''A'' of None \<Rightarrow> [] | Some ps \<Rightarrow> ps) = [aXml]"
  "map pooledFile (case xmlPool (pairFiles sampleEnv [plainItem aXml i, zipItem archiveOne j memberA]
       (initialState\<lparr>processedFileKeys := ks\<rparr>)) ''a'' of None \<Rightarrow> [] | Some ps \<Rightarrow> ps) = [memberA]"
proof -
  define s0 where "s0 = initialState\<lparr>processedFileKeys := ks\<rparr>"
  define s1 where "s1 = processXml sampleEnv s0 (plainItem aXml i)"
  define s2 where "s2 = processXml sampleEnv s1 (zipItem archiveOne j memberA)"
  define pa where "pa = \<lparr>pooledFile = itemFile (plainItem aXml i),
      pooledJigyoushoName = extractJigyousho sampleEnv (bytes (itemFile (plainItem aXml i))),
      pooledSource = itemSource (plainItem aXml i)\<rparr>"
  define pm where "pm = \<lparr>pooledFile = itemFile (zipItem archiveOne j memberA),
      pooledJigyoushoName = extractJigyousho sampleEnv (bytes (itemFile (zipItem archiveOne j memberA))),
      pooledSource = itemSource (zipItem archiveOne j memberA)\<rparr>"
  have x: "\<forall>item \<in> set [plainItem aXml i, zipItem archiveOne j memberA].
             classify (name (itemFile item)) = XmlDocument"
    by (simp add: sample_classify zipItem_def memberA_classify)
  have a: "name (itemFile (plainItem aXml i)) = ''A'' @ ''.xml''"
    by (simp add: sample_names)
  have m: "name (itemFile (zipItem archiveOne j memberA)) = ''a'' @ ''.xml''"
    by (simp add: zipItem_def memberA_name)
  have r: "pairFiles sampleEnv [plainItem aXml i, zipItem archiveOne j memberA] s0 = s2"
    by (simp add: pairFiles_xml_only [OF x] s2_def s1_def)
  have c0: "xslCache s0 ''A'' = None" and p0: "xmlPool s0 = Map.empty"
    by (simp_all add: s0_def initialState_def)
  have e1: "s1 = s0\<lparr>xmlPool := (xmlPool s0)(''A'' \<mapsto> [] @ [pa])\<rparr>"
    unfolding s1_def pa_def using processXml_pooled_item [OF a c0, of sampleEnv] p0 by simp
  have c1: "xslCache s1 ''a'' = None" and p1: "xmlPool s1 ''a'' = None"
    by (simp_all add: e1 s0_def initialState_def)
  have e2: "s2 = s1\<lparr>xmlPool := (xmlPool s1)(''a'' \<mapsto> [] @ [pm])\<rparr>"
    unfolding s2_def pm_def using processXml_pooled_item [OF m c1, of sampleEnv] p1 by simp
  have "xmlPool s2 ''A'' = Some [pa]" "xmlPool s2 ''a'' = Some [pm]"
    by (simp_all add: e2 e1)
  then show "map pooledFile (case xmlPool (pairFiles sampleEnv [plainItem aXml i, zipItem archiveOne j memberA]
       (initialState\<lparr>processedFileKeys := ks\<rparr>)) ''A'' of None \<Rightarrow> [] | Some ps \<Rightarrow> ps) = [aXml]"
    and "map pooledFile (case xmlPool (pairFiles sampleEnv [plainItem aXml i, zipItem archiveOne j memberA]
       (initialState\<lparr>processedFileKeys := ks\<rparr>)) ''a'' of None \<Rightarrow> [] | Some ps \<Rightarrow> ps) = [memberA]"
    unfolding s0_def [symmetric] r by (simp_all add: pa_def pm_def zipItem_def)
qed

lemma xmlCopies_initial: "xmlCopies initialState x = 0"
  by (simp add: xmlCopies_def initialState_def)

lemma run_single: "run env [AddFiles files] = snd (addFilesToStorage env files initialState)"
  by (simp add: run_def)

section \<open>Claims about ingestion and pairing\<close>

text \<open>
  C1, as stated: after \<^verbatim>\<open>A.xml\<close>, \<^verbatim>\<open>A.xsl\<close> (v1) and \<^verbatim>\<open>A.xsl\<close> (v2) in three batches the
  one pair of basename A carries the title of v2. It is false. Let \<^verbatim>\<open>A.xml\<close> be the document
  \<^verbatim>\<open><a/>\<close> and the two versions of \<^verbatim>\<open>A.xsl\<close> the documents \<^verbatim>\<open><a><title>v1</title></a>\<close> and
  \<^verbatim>\<open><a><title>v2</title></a>\<close>, whose \<^verbatim>\<open>title\<close> elements have the texts v1 and v2. In a fresh
  session the one pair carries the title v1 after the three batches.
\<close>

theorem formed_pair_keeps_first_title:
  "map (\<lambda>kv. (basename (snd kv), title (snd kv)))
     (fileStorage (snd (addFilesToStorage sampleEnv [aXslV2]
        (snd (addFilesToStorage sampleEnv [aXslV1]
           (snd (addFilesToStorage sampleEnv [aXml] initialState))))))) = [(''A'', ''v1'')]
   \<and> extractTitle sampleEnv (bytes aXslV2) = ''v2''
   \<and> decodeLatin1 (bytes aXslV1) = ''<a><title>v1</title></a>''
   \<and> decodeLatin1 (bytes aXslV2) = ''<a><title>v2</title></a>''"
proof -
  define px where "px = \<lparr>pooledFile = aXml, pooledJigyoushoName = extractJigyousho sampleEnv (bytes aXml),
                    pooledSource = itemSource (plainItem aXml 0)\<rparr>"
  define s1 where "s1 = snd (addFilesToStorage sampleEnv [aXml] initialState)"
  define s2 where "s2 = snd (addFilesToStorage sampleEnv [aXslV1] s1)"
  have e1: "s1 = initialState\<lparr>processedFileKeys := {fileKey aXml},
                    xmlPool := Map.empty(''A'' \<mapsto> [px])\<rparr>"
    unfolding s1_def px_def
    using xml_alone_pooled [OF sample_names(1) _ _ sample_plain(1), of initialState sampleEnv]
    by (simp add: initialState_def)
  have kb1: "keysBelowCounter s1"
    by (simp add: e1 keysBelowCounter_def initialState_def)
  have pool1: "xmlPool s1 ''A'' = Some [px]" by (simp add: e1)
  have key1: "fileKey aXslV1 \<notin> processedFileKeys s1"
    by (simp add: e1 sample_keys)
  note step2 = pooled_then_xsl [OF kb1 pool1 sample_names(2) key1 sample_plain(2), of sampleEnv,
      folded s2_def]
  have st2: "map (\<lambda>kv. (basename (snd kv), title (snd kv))) (fileStorage s2) = [(''A'', ''v1'')]"
    using step2(1) by (simp add: e1 initialState_def sample_titles)
  have pool2: "xmlPool s2 ''A'' = None"
    using step2(2) by simp
  have key2: "fileKey aXslV2 \<notin> processedFileKeys s2"
    using step2(5) by (simp add: e1 sample_keys)
  have "fileStorage (snd (addFilesToStorage sampleEnv [aXslV2] s2)) = fileStorage s2"
    using xsl_alone_no_pool [OF sample_names(3) pool2 key2 sample_plain(3), of sampleEnv] by simp
  then show ?thesis
    using st2 by (simp add: s2_def s1_def sample_titles sample_documents)
qed

text \<open>
  C1, amended. In any session in which the basename \<open>b\<close> has not been seen, let the XML
  file, the first XSL file and the second XSL file of that basename arrive in three
  batches, none an archive and each with a key of its own. Then exactly one pair of
  basename \<open>b\<close> exists; it is made of the XML file and the first XSL file and carries the
  first title. Last-write-wins holds for the cache entry, which is the second XSL file
  with its title, and not for the pair already formed.
\<close>

theorem later_xsl_leaves_formed_pair:
  assumes s0: "s0 = run env events"
    and unseen: "xslCache s0 b = None" "xmlPool s0 b = None"
    and names: "name x = b @ ''.xml''" "name v1 = b @ ''.xsl''" "name v2 = b @ ''.xsl''"
    and plain: "\<not> isZipFile x" "\<not> isZipFile v1" "\<not> isZipFile v2"
    and keys: "fileKey x \<notin> processedFileKeys s0" "fileKey v1 \<notin> processedFileKeys s0"
      "fileKey v2 \<notin> processedFileKeys s0"
      "fileKey v1 \<noteq> fileKey x" "fileKey v2 \<noteq> fileKey x" "fileKey v2 \<noteq> fileKey v1"
    and s3: "s3 = snd (addFilesToStorage env [v2]
                    (snd (addFilesToStorage env [v1] (snd (addFilesToStorage env [x] s0)))))"
  shows "(\<exists>k p. filter (\<lambda>kv. basename (snd kv) = b) (fileStorage s3) = [(k, p)]
            \<and> xml p = x \<and> xsl p = v1 \<and> title p = extractTitle env (bytes v1))
         \<and> xslCache s3 b = Some \<lparr>xslFile = v2, xslTitle = extractTitle env (bytes v2)\<rparr>"
proof -
  define px where "px = \<lparr>pooledFile = x, pooledJigyoushoName = extractJigyousho env (bytes x),
                    pooledSource = itemSource (plainItem x 0)\<rparr>"
  define s1 where "s1 = snd (addFilesToStorage env [x] s0)"
  define s2 where "s2 = snd (addFilesToStorage env [v1] s1)"
  have e1: "s1 = s0\<lparr>processedFileKeys := insert (fileKey x) (processedFileKeys s0),
                    xmlPool := (xmlPool s0)(b \<mapsto> [px])\<rparr>"
    unfolding s1_def px_def
    using xml_alone_pooled [OF names(1) unseen(1) keys(1) plain(1), of env] unseen(2) by simp
  have kb0: "keysBelowCounter s0" and pc0: "pairsCached s0"
    unfolding s0 by (rule run_keysBelow, rule run_pairsCached)
  have kb1: "keysBelowCounter s1"
    using kb0 by (simp add: e1 keysBelowCounter_def)
  have pool1: "xmlPool s1 b = Some [px]" by (simp add: e1)
  have key1: "fileKey v1 \<notin> processedFileKeys s1"
    using keys by (simp add: e1)
  note step2 = pooled_then_xsl [OF kb1 pool1 names(2) key1 plain(2), of env, folded s2_def]
  have st2: "fileStorage s2 = fileStorage s0 @
      [(uniqueKeyOf b (fileIdCounter s0) (dateNow env (fileIdCounter s0)),
        \<lparr>basename = b, xml = x, xsl = v1, title = extractTitle env (bytes v1),
         jigyoushoName = extractJigyousho env (bytes x), sourceInfo = itemSource (plainItem x 0)\<rparr>)]"
    using step2(1) by (simp add: e1 px_def)
  have pool2: "xmlPool s2 b = None"
    using step2(2) by simp
  have key2: "fileKey v2 \<notin> processedFileKeys s2"
    using step2(5) keys by (simp add: e1)
  have e3: "s3 = s2\<lparr>processedFileKeys := insert (fileKey v2) (processedFileKeys s2),
             xslCache := (xslCache s2)(b \<mapsto> \<lparr>xslFile = v2, xslTitle = extractTitle env (bytes v2)\<rparr>)\<rparr>"
    unfolding s3 s1_def [symmetric] s2_def [symmetric]
    by (rule xsl_alone_no_pool [OF names(3) pool2 key2 plain(3)])
  have "filter (\<lambda>kv. basename (snd kv) = b) (fileStorage s0) = []"
    by (rule no_pairs_of_unseen [OF pc0 unseen(1)])
  then have "filter (\<lambda>kv. basename (snd kv) = b) (fileStorage s3) =
      [(uniqueKeyOf b (fileIdCounter s0) (dateNow env (fileIdCounter s0)),
        \<lparr>basename = b, xml = x, xsl = v1, title = extractTitle env (bytes v1),
         jigyoushoName = extractJigyousho env (bytes x), sourceInfo = itemSource (plainItem x 0)\<rparr>)]"
    by (simp add: e3 st2)
  moreover have "xslCache s3 b = Some \<lparr>xslFile = v2, xslTitle = extractTitle env (bytes v2)\<rparr>"
    by (simp add: e3)
  ultimately show ?thesis by simp
qed

theorem later_xsl_leaves_formed_pair_witness:
  "(\<exists>k p. filter (\<lambda>kv. basename (snd kv) = ''B'')
            (fileStorage (snd (addFilesToStorage sampleEnv [bXslV2]
               (snd (addFilesToStorage sampleEnv [bXsl]
                  (snd (addFilesToStorage sampleEnv [bXml1] (run sampleEnv pairSession))))))))
          = [(k, p)]
        \<and> xml p = bXml1 \<and> xsl p = bXsl \<and> title p = ''form'')
   \<and> xslCache (snd (addFilesToStorage sampleEnv [bXslV2]
               (snd (addFilesToStorage sampleEnv [bXsl]
                  (snd (addFilesToStorage sampleEnv [bXml1] (run sampleEnv pairSession))))))) ''B''
       = Some \<lparr>xslFile = bXslV2, xslTitle = ''form2''\<rparr>
   \<and> extractTitle sampleEnv (bytes bXslV2) = ''form2''"
proof -
  have c: "xslCache (run sampleEnv pairSession) ''B'' = None"
    by (simp add: pairSession_state)
  have p: "xmlPool (run sampleEnv pairSession) ''B'' = None"
    by (simp add: pairSession_state)
  have k: "fileKey bXml1 \<notin> processedFileKeys (run sampleEnv pairSession)"
    "fileKey bXsl \<notin> processedFileKeys (run sampleEnv pairSession)"
    "fileKey bXslV2 \<notin> processedFileKeys (run sampleEnv pairSession)"
    "fileKey bXsl \<noteq> fileKey bXml1" "fileKey bXslV2 \<noteq> fileKey bXml1" "fileKey bXslV2 \<noteq> fileKey bXsl"
    by (simp_all add: pairSession_state sample_keys sample_keys_b)
  show ?thesis
    using later_xsl_leaves_formed_pair [OF refl c p sample_names_b(1,3,4) sample_plain_b(1,3,4) k refl]
    by (simp add: sample_titles_b)
qed

text \<open>
  C2. In any session in which the basename \<open>b\<close> has not been seen, let two XML files of
  that basename arrive, in one batch or in two, and then one XSL file of that basename,
  none an archive and each with a key of its own. Then exactly two pairs of basename
  \<open>b\<close> are created, with two different keys, appended to the pair collection in the
  order in which the two XML files arrived.
\<close>

theorem pooled_xml_files_pair_in_arrival_order:
  assumes s0: "s0 = run env events"
    and unseen: "xslCache s0 b = None" "xmlPool s0 b = None"
    and names: "name x1 = b @ ''.xml''" "name x2 = b @ ''.xml''" "name v = b @ ''.xsl''"
    and plain: "\<not> isZipFile x1" "\<not> isZipFile x2" "\<not> isZipFile v"
    and keys: "fileKey x1 \<notin> processedFileKeys s0" "fileKey x2 \<notin> processedFileKeys s0"
      "fileKey v \<notin> processedFileKeys s0"
      "fileKey x2 \<noteq> fileKey x1" "fileKey v \<noteq> fileKey x1" "fileKey v \<noteq> fileKey x2"
    and arrival: "s1 = snd (addFilesToStorage env [x1, x2] s0)
                  \<or> s1 = snd (addFilesToStorage env [x2] (snd (addFilesToStorage env [x1] s0)))"
    and s2: "s2 = snd (addFilesToStorage env [v] s1)"
  shows "\<exists>k1 k2 q1 q2.
           fileStorage s2 = fileStorage s0 @ [(k1, q1), (k2, q2)]
           \<and> filter (\<lambda>kv. basename (snd kv) = b) (fileStorage s2) = [(k1, q1), (k2, q2)]
           \<and> k1 \<noteq> k2
           \<and> xml q1 = x1 \<and> xml q2 = x2 \<and> xsl q1 = v \<and> xsl q2 = v"
proof -
  have kb0: "keysBelowCounter s0" and pc0: "pairsCached s0"
    unfolding s0 by (rule run_keysBelow, rule run_pairsCached)
  define j1 where "j1 = extractJigyousho env (bytes x1)"
  define j2 where "j2 = extractJigyousho env (bytes x2)"
  have "\<exists>i. s1 = s0\<lparr>processedFileKeys := insert (fileKey x2) (insert (fileKey x1) (processedFileKeys s0)),
                 xmlPool := (xmlPool s0)(b \<mapsto>
                   [\<lparr>pooledFile = x1, pooledJigyoushoName = j1, pooledSource = itemSource (plainItem x1 0)\<rparr>,
                    \<lparr>pooledFile = x2, pooledJigyoushoName = j2, pooledSource = itemSource (plainItem x2 i)\<rparr>])\<rparr>"
    using arrival
  proof
    assume a: "s1 = snd (addFilesToStorage env [x1, x2] s0)"
    have "s1 = s0\<lparr>processedFileKeys := insert (fileKey x2) (insert (fileKey x1) (processedFileKeys s0)),
                 xmlPool := (xmlPool s0)(b \<mapsto>
                   [\<lparr>pooledFile = x1, pooledJigyoushoName = j1, pooledSource = itemSource (plainItem x1 0)\<rparr>,
                    \<lparr>pooledFile = x2, pooledJigyoushoName = j2, pooledSource = itemSource (plainItem x2 1)\<rparr>])\<rparr>"
      unfolding a using unseen
      by (simp add: addFiles_two_plain [OF keys(1) plain(1) keys(2) plain(2) keys(4)]
          pairFiles_xml_only names processXml_pooled [OF names(1)] processXml_pooled [OF names(2)]
          j1_def j2_def)
    then show ?thesis by blast
  next
    assume a: "s1 = snd (addFilesToStorage env [x2] (snd (addFilesToStorage env [x1] s0)))"
    define t where "t = snd (addFilesToStorage env [x1] s0)"
    have t: "t = s0\<lparr>processedFileKeys := insert (fileKey x1) (processedFileKeys s0),
                 xmlPool := (xmlPool s0)(b \<mapsto>
                   [\<lparr>pooledFile = x1, pooledJigyoushoName = j1, pooledSource = itemSource (plainItem x1 0)\<rparr>])\<rparr>"
      unfolding t_def j1_def
      using xml_alone_pooled [OF names(1) unseen(1) keys(1) plain(1), of env] unseen(2) by simp
    have c: "xslCache t b = None" using unseen by (simp add: t)
    have k: "fileKey x2 \<notin> processedFileKeys t" using keys by (simp add: t)
    have "s1 = s0\<lparr>processedFileKeys := insert (fileKey x2) (insert (fileKey x1) (processedFileKeys s0)),
                 xmlPool := (xmlPool s0)(b \<mapsto>
                   [\<lparr>pooledFile = x1, pooledJigyoushoName = j1, pooledSource = itemSource (plainItem x1 0)\<rparr>,
                    \<lparr>pooledFile = x2, pooledJigyoushoName = j2, pooledSource = itemSource (plainItem x2 0)\<rparr>])\<rparr>"
      unfolding a t_def [symmetric]
      using xml_alone_pooled [OF names(2) c k plain(2), of env]
      by (simp add: t j2_def)
    then show ?thesis by blast
  qed
  then obtain i where e1: "s1 = s0\<lparr>processedFileKeys := insert (fileKey x2) (insert (fileKey x1) (processedFileKeys s0)),
                 xmlPool := (xmlPool s0)(b \<mapsto>
                   [\<lparr>pooledFile = x1, pooledJigyoushoName = j1, pooledSource = itemSource (plainItem x1 0)\<rparr>,
                    \<lparr>pooledFile = x2, pooledJigyoushoName = j2, pooledSource = itemSource (plainItem x2 i)\<rparr>])\<rparr>"
    by blast
  have kb1: "keysBelowCounter s1" using kb0 by (simp add: e1 keysBelowCounter_def)
  have pc1: "pairsCached s1" using pc0 by (simp add: e1 pairsCached_def)
  have c1: "xslCache s1 b = None" using unseen by (simp add: e1)
  have p1: "xmlPool s1 b = Some
        [\<lparr>pooledFile = x1, pooledJigyoushoName = j1, pooledSource = itemSource (plainItem x1 0)\<rparr>,
         \<lparr>pooledFile = x2, pooledJigyoushoName = j2, pooledSource = itemSource (plainItem x2 i)\<rparr>]"
    by (simp add: e1)
  have k1: "fileKey v \<notin> processedFileKeys s1" using keys by (simp add: e1)
  have fs: "fileStorage s1 = fileStorage s0" by (simp add: e1)
  show ?thesis
    using two_pooled_then_xsl [OF kb1 pc1 c1 p1 names(3) k1 plain(3), of env]
    unfolding s2 fs by simp
qed

theorem pooled_xml_files_pair_in_arrival_order_witness:
  "(\<exists>k1 k2 q1 q2.
      fileStorage (snd (addFilesToStorage sampleEnv [bXsl]
         (snd (addFilesToStorage sampleEnv [bXml1, bXml2] (run sampleEnv pairSession)))))
        = fileStorage (run sampleEnv pairSession) @ [(k1, q1), (k2, q2)]
      \<and> filter (\<lambda>kv. basename (snd kv) = ''B'')
           (fileStorage (snd (addFilesToStorage sampleEnv [bXsl]
              (snd (addFilesToStorage sampleEnv [bXml1, bXml2] (run sampleEnv pairSession))))))
          = [(k1, q1), (k2, q2)]
      \<and> k1 \<noteq> k2 \<and> xml q1 = bXml1 \<and> xml q2 = bXml2 \<and> xsl q1 = bXsl \<and> xsl q2 = bXsl)
   \<and> (\<exists>k1 k2 q1 q2.
      fileStorage (snd (addFilesToStorage sampleEnv [bXsl]
         (snd (addFilesToStorage sampleEnv [bXml2]
            (snd (addFilesToStorage sampleEnv [bXml1] (run sampleEnv pairSession)))))))
        = fileStorage (run sampleEnv pairSession) @ [(k1, q1), (k2, q2)]
      \<and> filter (\<lambda>kv. basename (snd kv) = ''B'')
           (fileStorage (snd (addFilesToStorage sampleEnv [bXsl]
              (snd (addFilesToStorage sampleEnv [bXml2]
                 (snd (addFilesToStorage sampleEnv [bXml1] (run sampleEnv pairSession))))))))
          = [(k1, q1), (k2, q2)]
      \<and> k1 \<noteq> k2 \<and> xml q1 = bXml1 \<and> xml q2 = bXml2 \<and> xsl q1 = bXsl \<and> xsl q2 = bXsl)"
proof -
  have c: "xslCache (run sampleEnv pairSession) ''B'' = None"
    by (simp add: pairSession_state)
  have p: "xmlPool (run sampleEnv pairSession) ''B'' = None"
    by (simp add: pairSession_state)
  have k: "fileKey bXml1 \<notin> processedFileKeys (run sampleEnv pairSession)"
    "fileKey bXml2 \<notin> processedFileKeys (run sampleEnv pairSession)"
    "fileKey bXsl \<notin> processedFileKeys (run sampleEnv pairSession)"
    "fileKey bXml2 \<noteq> fileKey bXml1" "fileKey bXsl \<noteq> fileKey bXml1" "fileKey bXsl \<noteq> fileKey bXml2"
    by (simp_all add: pairSession_state sample_keys sample_keys_b)
  note t = pooled_xml_files_pair_in_arrival_order
    [OF refl c p sample_names_b(1,2,3) sample_plain_b(1,2,3) k _ refl]
  show ?thesis
    using t [of "snd (addFilesToStorage sampleEnv [bXml1, bXml2] (run sampleEnv pairSession))"]
      t [of "snd (addFilesToStorage sampleEnv [bXml2]
            (snd (addFilesToStorage sampleEnv [bXml1] (run sampleEnv pairSession))))"]
    by simp
qed

text \<open>
  C3. The classification of \<^verbatim>\<open>viewer.js\<close> compares the extension as it is written: the
  file \<^verbatim>\<open>A.XML\<close> is neither an XML nor an XSL document there, while the React variant
  classifies it as an XML document. Dropped together with \<^verbatim>\<open>A.xsl\<close> it forms no pair
  and is not even pooled.
\<close>

theorem uppercase_extension_not_classified:
  "classify ''A.XML'' = Ignored
   \<and> classifyReact ''A.XML'' = XmlDocument
   \<and> fst (addFilesToStorage sampleEnv [upperXml, aXslV1] initialState) = None
   \<and> fileStorage (snd (addFilesToStorage sampleEnv [upperXml, aXslV1] initialState)) = []
   \<and> xmlPool (snd (addFilesToStorage sampleEnv [upperXml, aXslV1] initialState)) = Map.empty"
proof -
  have 1: "classify ''A.XML'' = Ignored"
    by (simp add: classify_def endsWith_def)
  have 2: "classifyReact ''A.XML'' = XmlDocument"
    by (simp add: classifyReact_def toLowerCase_sample endsWith_def)
  have k: "fileKey upperXml = ''A.XML_4_2000''"
    by (simp add: fileKey_def upperXml_def sampleFile_def showInt_def showNat.simps digitChar_def)
  have z: "\<not> isZipFile upperXml" by (simp add: upperXml_def endsWith_def)
  have a: "addFilesToStorage sampleEnv [upperXml, aXslV1] initialState =
      (None, pairFiles sampleEnv [plainItem upperXml 0, plainItem aXslV1 1]
         (initialState\<lparr>processedFileKeys := {fileKey aXslV1, fileKey upperXml}\<rparr>))"
    using addFiles_two_plain [of upperXml initialState aXslV1 sampleEnv] z sample_plain(2)
    by (simp add: k sample_keys initialState_def)
  have x: "xmlFilesOf [plainItem upperXml i, plainItem aXslV1 j] = []" for i j
    using 1 by (simp add: xmlFilesOf_def upperXml_def sample_classify)
  have y: "xslFilesOf [plainItem upperXml i, plainItem aXslV1 j] = [plainItem aXslV1 j]" for i j
    using 1 by (simp add: xslFilesOf_def upperXml_def sample_classify)
  have b: "pairFiles sampleEnv [plainItem upperXml 0, plainItem aXslV1 1]
         (initialState\<lparr>processedFileKeys := {fileKey aXslV1, fileKey upperXml}\<rparr>) =
      initialState\<lparr>processedFileKeys := {fileKey aXslV1, fileKey upperXml},
        xslCache := Map.empty(''A'' \<mapsto> \<lparr>xslFile = aXslV1, xslTitle = extractTitle sampleEnv (bytes aXslV1)\<rparr>)\<rparr>"
    by (simp add: pairFiles_def x y processXsl_def sample_base Let_def drainPool_def initialState_def)
  show ?thesis
    unfolding a b using 1 2 by (simp add: initialState_def)
qed

text \<open>
  C4, as stated: dropping the same file twice yields exactly one ingested copy. It is
  false when the batch that first accepts the file does not run to completion. The batch
  of \<^verbatim>\<open>A.xml\<close> followed by the archive \<^verbatim>\<open>forms.zip\<close>, whose second member is stored, ends
  in the decompression error: the key of \<^verbatim>\<open>A.xml\<close> is recorded, and the session holds no
  pair and no pooled file. \<^verbatim>\<open>A.xml\<close> dropped again is skipped silently, and \<^verbatim>\<open>A.xsl\<close>
  dropped after it forms no pair: \<^verbatim>\<open>A.xml\<close> was dropped twice and never ingested.
\<close>

theorem aborted_batch_records_key_without_copy:
  "addFilesToStorage sampleEnv [aXml, archiveTwo] initialState
     = (Some DecompressError, initialState\<lparr>processedFileKeys := {fileKey aXml, fileKey archiveTwo}\<rparr>)
   \<and> addFilesToStorage sampleEnv [aXml]
        (initialState\<lparr>processedFileKeys := {fileKey aXml, fileKey archiveTwo}\<rparr>)
     = (None, initialState\<lparr>processedFileKeys := {fileKey aXml, fileKey archiveTwo}\<rparr>)
   \<and> fileStorage (initialState\<lparr>processedFileKeys := {fileKey aXml, fileKey archiveTwo}\<rparr>) = []
   \<and> xmlPool (initialState\<lparr>processedFileKeys := {fileKey aXml, fileKey archiveTwo}\<rparr>) ''A'' = None
   \<and> fileStorage (snd (addFilesToStorage sampleEnv [aXslV1]
        (initialState\<lparr>processedFileKeys := {fileKey aXml, fileKey archiveTwo}\<rparr>))) = []"
proof -
  define t where "t = initialState\<lparr>processedFileKeys := {fileKey aXml, fileKey archiveTwo}\<rparr>"
  have 1: "addFilesToStorage sampleEnv [aXml, archiveTwo] initialState = (Some DecompressError, t)"
    using sample_plain(1) sample_archives(2) decompressZip_zipTwo
    by (simp add: addFilesToStorage_def initialState_def t_def sample_archives(4))
       (auto simp: sample_keys sample_archives)
  have 2: "addFilesToStorage sampleEnv [aXml] t = (None, t)"
    by (rule addFiles_all_seen) (simp add: t_def)
  have 3: "fileStorage t = []" "xmlPool t ''A'' = None"
    by (simp_all add: t_def initialState_def)
  have key: "fileKey aXslV1 \<notin> processedFileKeys t"
    by (simp add: t_def sample_keys sample_archives)
  have 4: "fileStorage (snd (addFilesToStorage sampleEnv [aXslV1] t)) = []"
    using xsl_alone_no_pool [OF sample_names(2) 3(2) key sample_plain(2), of sampleEnv] 3(1)
    by simp
  show ?thesis
    using 1 2 3 4 by (simp add: t_def)
qed

text \<open>
  C4, amended. The key of a file is its relative path, or its name when it has none, an
  underscore, its size, an underscore and its last-modified time stamp. The files that a
  batch accepts are, for every key that the session has not recorded, the first file of
  the batch with that key and no other. The batch runs to completion exactly when every
  archive it accepts decompresses; it then hands to pairing the accepted files in their
  order, a plain file as itself and an archive as its members, and records the keys of
  all its files. In any session and for any batch of plain files, the number of times
  the session holds an XML file \<open>x\<close>, as the XML file of a pair or in the pool, grows by
  one when the key of \<open>x\<close> is new and \<open>x\<close> is the first file of the batch with that key,
  and stays as it is otherwise: the same file twice in one batch, or in two batches, is
  held once more. A batch of files whose keys are all recorded is skipped silently, and
  so is any batch dropped again after it completed: no error, and the state stays as it
  is.
\<close>

theorem first_file_of_key_ingested_once:
  "fileKey f =
     (if webkitRelativePath f \<noteq> [] then webkitRelativePath f else name f)
       @ ''_'' @ showNat (fsize f) @ ''_'' @ showInt (lastModified f)
   \<and> map snd (filter (\<lambda>p. fileKey (snd p) = k) (acceptedFiles files 0 (processedFileKeys s)))
       = (if k \<in> processedFileKeys s then []
          else (case find (\<lambda>g. fileKey g = k) files of None \<Rightarrow> [] | Some g \<Rightarrow> [g]))
   \<and> (fst (addFilesToStorage env files s) = None)
       = (\<forall>p \<in> set (acceptedFiles files 0 (processedFileKeys s)).
            isZipFile (snd p) \<longrightarrow> decompresses env (snd p))
   \<and> ((\<forall>p \<in> set (acceptedFiles files 0 (processedFileKeys s)).
          isZipFile (snd p) \<longrightarrow> decompresses env (snd p)) \<longrightarrow>
        addFilesToStorage env files s =
          (None, pairFiles env
                   (concat (map (expandFile env) (acceptedFiles files 0 (processedFileKeys s))))
                   (s\<lparr>processedFileKeys := processedFileKeys s \<union> fileKey ` set files\<rparr>)))
   \<and> (s = run env events \<and> (\<forall>g \<in> set files. \<not> isZipFile g) \<and> classify (name x) = XmlDocument \<longrightarrow>
        xmlCopies (snd (addFilesToStorage env files s)) x
          = xmlCopies s x
            + (if fileKey x \<notin> processedFileKeys s
                  \<and> find (\<lambda>g. fileKey g = fileKey x) files = Some x then 1 else 0))
   \<and> ((\<forall>g \<in> set files. fileKey g \<in> processedFileKeys s) \<longrightarrow>
        addFilesToStorage env files s = (None, s))
   \<and> (addFilesToStorage env files s = (None, s1) \<longrightarrow> addFilesToStorage env files s1 = (None, s1))"
proof -
  have 1: "fileKey f =
     (if webkitRelativePath f \<noteq> [] then webkitRelativePath f else name f)
       @ ''_'' @ showNat (fsize f) @ ''_'' @ showInt (lastModified f)"
    by (simp add: fileKey_def)
  have 4: "xmlCopies (snd (addFilesToStorage env files s)) x
          = xmlCopies s x
            + (if fileKey x \<notin> processedFileKeys s
                  \<and> find (\<lambda>g. fileKey g = fileKey x) files = Some x then 1 else 0)"
    if "s = run env events" "\<forall>g \<in> set files. \<not> isZipFile g" "classify (name x) = XmlDocument"
    using addFiles_plain_copies [OF _ _ that(2,3), of s env] run_keysBelow [of env events]
      run_namesAgree [of env events] that(1)
    by simp
  show ?thesis
    using 1 acceptedFiles_first [of k files 0 "processedFileKeys s"]
      addFiles_completes_iff [of env files s] addFiles_accepted [of files s env] 4
      addFiles_all_seen [of files s env] addFiles_redrop [of env files s s1]
    by blast
qed

theorem first_file_of_key_ingested_once_witness:
  "fileKey aXml = ''A.xml_4_2000''
   \<and> acceptedFiles [aXml, archiveOne, aXml] 0 (processedFileKeys initialState)
       = [(0, aXml), (1, archiveOne)]
   \<and> decompresses sampleEnv archiveOne
   \<and> addFilesToStorage sampleEnv [aXml, archiveOne, aXml] initialState
       = (None, pairFiles sampleEnv [plainItem aXml 0, zipItem archiveOne 1 memberA]
                  (initialState\<lparr>processedFileKeys := {fileKey aXml, fileKey archiveOne}\<rparr>))
   \<and> map pooledFile
        (case xmlPool (snd (addFilesToStorage sampleEnv [aXml, archiveOne, aXml] initialState)) ''A''
         of None \<Rightarrow> [] | Some pooled \<Rightarrow> pooled) = [aXml]
   \<and> map pooledFile
        (case xmlPool (snd (addFilesToStorage sampleEnv [aXml, archiveOne, aXml] initialState)) ''a''
         of None \<Rightarrow> [] | Some pooled \<Rightarrow> pooled) = [memberA]
   \<and> xmlCopies (snd (addFilesToStorage sampleEnv [aXml, aXslV1, aXml] initialState)) aXml = 1
   \<and> xmlCopies (snd (addFilesToStorage sampleEnv [aXml]
        (snd (addFilesToStorage sampleEnv [aXml, aXslV1, aXml] initialState)))) aXml = 1
   \<and> addFilesToStorage sampleEnv [aXml, aXslV1] (run sampleEnv pairSession)
       = (None, run sampleEnv pairSession)
   \<and> addFilesToStorage sampleEnv [aXml, archiveOne, aXml]
        (snd (addFilesToStorage sampleEnv [aXml, archiveOne, aXml] initialState))
       = (None, snd (addFilesToStorage sampleEnv [aXml, archiveOne, aXml] initialState))"
proof -
  note t1 = first_file_of_key_ingested_once [of aXml "fileKey aXml" "[aXml, archiveOne, aXml]"
      initialState sampleEnv "[]" aXml
      "snd (addFilesToStorage sampleEnv [aXml, archiveOne, aXml] initialState)"]
  have h1: "\<forall>p \<in> set (acceptedFiles [aXml, archiveOne, aXml] 0 (processedFileKeys initialState)).
              isZipFile (snd p) \<longrightarrow> decompresses sampleEnv (snd p)"
    by (simp add: accepted_sample decompresses_archiveOne sample_plain)
  have ks: "processedFileKeys initialState \<union> fileKey ` set [aXml, archiveOne, aXml]
      = {fileKey aXml, fileKey archiveOne}"
    by (auto simp: initialState_def)
  have a1: "addFilesToStorage sampleEnv [aXml, archiveOne, aXml] initialState
       = (None, pairFiles sampleEnv [plainItem aXml 0, zipItem archiveOne 1 memberA]
                  (initialState\<lparr>processedFileKeys := {fileKey aXml, fileKey archiveOne}\<rparr>))"
    using t1 h1 unfolding ks accepted_sample expand_sample by blast
  have f1: "addFilesToStorage sampleEnv [aXml, archiveOne, aXml] initialState
       = (None, snd (addFilesToStorage sampleEnv [aXml, archiveOne, aXml] initialState))"
    using a1 by simp
  have r1: "addFilesToStorage sampleEnv [aXml, archiveOne, aXml]
        (snd (addFilesToStorage sampleEnv [aXml, archiveOne, aXml] initialState))
       = (None, snd (addFilesToStorage sampleEnv [aXml, archiveOne, aXml] initialState))"
    using t1 f1 by blast
  define s2 where "s2 = snd (addFilesToStorage sampleEnv [aXml, aXslV1, aXml] initialState)"
  note t2 = first_file_of_key_ingested_once [of aXml "fileKey aXml" "[aXml, aXslV1, aXml]"
      initialState sampleEnv "[]" aXml initialState]
  have e2: "initialState = run sampleEnv []"
    by simp
  have plain2: "\<forall>g \<in> set [aXml, aXslV1, aXml]. \<not> isZipFile g"
    by (simp add: sample_plain)
  have "xmlCopies s2 aXml
      = xmlCopies initialState aXml
        + (if fileKey aXml \<notin> processedFileKeys initialState
              \<and> find (\<lambda>g. fileKey g = fileKey aXml) [aXml, aXslV1, aXml] = Some aXml then 1 else 0)"
    unfolding s2_def using t2 e2 plain2 sample_classify(1) by blast
  moreover have "fileKey aXml \<notin> processedFileKeys initialState"
    by (simp add: initialState_def)
  ultimately have c2: "xmlCopies s2 aXml = 1"
    using xmlCopies_initial [of aXml] by simp
  have "\<forall>p \<in> set (acceptedFiles [aXml, aXslV1, aXml] 0 (processedFileKeys initialState)).
          isZipFile (snd p) \<longrightarrow> decompresses sampleEnv (snd p)"
    using acceptedFiles_plain [OF plain2] by blast
  then have "addFilesToStorage sampleEnv [aXml, aXslV1, aXml] initialState =
          (None, pairFiles sampleEnv
                   (concat (map (expandFile sampleEnv)
                      (acceptedFiles [aXml, aXslV1, aXml] 0 (processedFileKeys initialState))))
                   (initialState\<lparr>processedFileKeys :=
                      processedFileKeys initialState \<union> fileKey ` set [aXml, aXslV1, aXml]\<rparr>))"
    using t2 by blast
  then have k2: "fileKey aXml \<in> processedFileKeys s2"
    unfolding s2_def by simp
  note t3 = first_file_of_key_ingested_once [of aXml "fileKey aXml" "[aXml]" s2 sampleEnv
      "[AddFiles [aXml, aXslV1, aXml]]" aXml s2]
  have e3: "s2 = run sampleEnv [AddFiles [aXml, aXslV1, aXml]]"
    by (simp add: run_single s2_def)
  have plain3: "\<forall>g \<in> set [aXml]. \<not> isZipFile g"
    by (simp add: sample_plain)
  have "xmlCopies (snd (addFilesToStorage sampleEnv [aXml] s2)) aXml
      = xmlCopies s2 aXml
        + (if fileKey aXml \<notin> processedFileKeys s2
              \<and> find (\<lambda>g. fileKey g = fileKey aXml) [aXml] = Some aXml then 1 else 0)"
    using t3 e3 plain3 sample_classify(1) by blast
  then have c3: "xmlCopies (snd (addFilesToStorage sampleEnv [aXml] s2)) aXml = 1"
    using k2 c2 by simp
  note t4 = first_file_of_key_ingested_once [of aXml "fileKey aXml" "[aXml, aXslV1]"
      "run sampleEnv pairSession" sampleEnv pairSession aXml "run sampleEnv pairSession"]
  have seen: "\<forall>g \<in> set [aXml, aXslV1]. fileKey g \<in> processedFileKeys (run sampleEnv pairSession)"
    by (simp add: pairSession_state)
  have n4: "addFilesToStorage sampleEnv [aXml, aXslV1] (run sampleEnv pairSession)
       = (None, run sampleEnv pairSession)"
    using t4 seen by blast
  have w1: "fileKey aXml = ''A.xml_4_2000''"
    by (rule sample_keys(1))
  have w5: "map pooledFile
        (case xmlPool (snd (addFilesToStorage sampleEnv [aXml, archiveOne, aXml] initialState)) ''A''
         of None \<Rightarrow> [] | Some pooled \<Rightarrow> pooled) = [aXml]"
    unfolding a1 snd_conv by (rule pool_sample(1))
  have w6: "map pooledFile
        (case xmlPool (snd (addFilesToStorage sampleEnv [aXml, archiveOne, aXml] initialState)) ''a''
         of None \<Rightarrow> [] | Some pooled \<Rightarrow> pooled) = [memberA]"
    unfolding a1 snd_conv by (rule pool_sample(2))
  show ?thesis
    using w1 accepted_sample decompresses_archiveOne a1 w5 w6 c2 [unfolded s2_def]
      c3 [unfolded s2_def] n4 r1
    by (intro conjI)
qed

text \<open>
  C8. In every session, whatever batches, clears and deletions it is made of, the XML
  file of a stored pair is named by the pair's basename followed by \<^verbatim>\<open>.xml\<close> and its
  XSL file by the same basename followed by \<^verbatim>\<open>.xsl\<close>, character for character. So a
  file \<^verbatim>\<open>a.xml\<close> and a file \<^verbatim>\<open>A.xsl\<close> are never the two sides of one pair.
\<close>

theorem basename_match_is_exact:
  assumes "(k, p) \<in> set (fileStorage (run env events))"
  shows "name (xml p) = basename p @ ''.xml'' \<and> name (xsl p) = basename p @ ''.xsl''
         \<and> \<not> (name (xml p) = ''a.xml'' \<and> name (xsl p) = ''A.xsl'')"
proof -
  have "pairedByName p"
    using run_namesAgree [of env events] assms
    by (auto simp: namesAgree_def list_all_iff)
  then show ?thesis
    by (auto simp: pairedByName_def)
qed

theorem basename_match_is_exact_witness:
  "\<exists>k p. (k, p) \<in> set (fileStorage (run sampleEnv caseSession))
       \<and> fileStorage (run sampleEnv caseSession) = [(k, p)]
       \<and> xml p = aXml \<and> xsl p = aXslV1
       \<and> name (xml p) = basename p @ ''.xml'' \<and> name (xsl p) = basename p @ ''.xsl''
       \<and> \<not> (name (xml p) = ''a.xml'' \<and> name (xsl p) = ''A.xsl'')
       \<and> (\<exists>q. xmlPool (run sampleEnv caseSession) ''a'' = Some [q] \<and> pooledFile q = lowerXml)"
proof -
  define s1 where "s1 = snd (addFilesToStorage sampleEnv [lowerXml] initialState)"
  define s2 where "s2 = snd (addFilesToStorage sampleEnv [aXslV1] s1)"
  define s3 where "s3 = snd (addFilesToStorage sampleEnv [aXml] s2)"
  have r: "run sampleEnv caseSession = s3"
    by (simp add: run_def caseSession_def s3_def s2_def s1_def)
  have e1: "s1 = initialState\<lparr>processedFileKeys := {fileKey lowerXml},
      xmlPool := Map.empty(''a'' \<mapsto>
        [\<lparr>pooledFile = lowerXml, pooledJigyoushoName = extractJigyousho sampleEnv (bytes lowerXml),
          pooledSource = itemSource (plainItem lowerXml 0)\<rparr>])\<rparr>"
    unfolding s1_def
    using xml_alone_pooled [OF sample_names(4) _ _ sample_plain(4), of initialState sampleEnv]
    by (simp add: initialState_def)
  have pool1: "xmlPool s1 ''A'' = None" by (simp add: e1 initialState_def)
  have key1: "fileKey aXslV1 \<notin> processedFileKeys s1" by (simp add: e1 sample_keys)
  have e2: "s2 = s1\<lparr>processedFileKeys := insert (fileKey aXslV1) (processedFileKeys s1),
      xslCache := (xslCache s1)(''A'' \<mapsto> \<lparr>xslFile = aXslV1, xslTitle = extractTitle sampleEnv (bytes aXslV1)\<rparr>)\<rparr>"
    unfolding s2_def
    by (rule xsl_alone_no_pool [OF sample_names(2) pool1 key1 sample_plain(2)])
  have kb2: "keysBelowCounter s2"
    by (simp add: e2 e1 keysBelowCounter_def initialState_def)
  have c2: "xslCache s2 ''A'' = Some \<lparr>xslFile = aXslV1, xslTitle = extractTitle sampleEnv (bytes aXslV1)\<rparr>"
    by (simp add: e2)
  have key2: "fileKey aXml \<notin> processedFileKeys s2" by (simp add: e2 e1 sample_keys)
  note step3 = xml_alone_paired [OF kb2 sample_names(1) c2 key2 sample_plain(1), of sampleEnv,
      folded s3_def]
  define k where "k = uniqueKeyOf ''A'' (fileIdCounter s2) (dateNow sampleEnv (fileIdCounter s2))"
  define p where "p = \<lparr>basename = ''A'', xml = aXml, xsl = aXslV1,
      title = extractTitle sampleEnv (bytes aXslV1),
      jigyoushoName = extractJigyousho sampleEnv (bytes aXml),
      sourceInfo = itemSource (plainItem aXml 0)\<rparr>"
  have st: "fileStorage s3 = [(k, p)]"
    using step3(1) by (simp add: e2 e1 initialState_def k_def p_def)
  have mem: "(k, p) \<in> set (fileStorage (run sampleEnv caseSession))"
    by (simp add: r st)
  have pool: "\<exists>q. xmlPool s3 ''a'' = Some [q] \<and> pooledFile q = lowerXml"
    using step3(2) by (simp add: e2 e1)
  show ?thesis
    using basename_match_is_exact [OF mem] mem st pool
    by (intro exI [of _ k] exI [of _ p]) (simp add: r p_def)
qed

text \<open>
  C10. The clear action of the full-page pair view empties the pair collection, the XSL
  cache and the XML pool and leaves the set of processed keys as it is. So, after it, a
  batch of files that were processed before is skipped silently and the pair collection
  stays empty. The clear action of the list view empties the set of processed keys too,
  and a file dropped again after it passes the gate.
\<close>

theorem pair_view_clear_keeps_processed_keys:
  "processedFileKeys (clearPairView True s) = processedFileKeys s
   \<and> fileStorage (clearPairView True s) = []
   \<and> xslCache (clearPairView True s) = Map.empty
   \<and> xmlPool (clearPairView True s) = Map.empty
   \<and> ((\<forall>f \<in> set files. fileKey f \<in> processedFileKeys s) \<longrightarrow>
        addFilesToStorage env files (clearPairView True s) = (None, clearPairView True s))
   \<and> processedFileKeys (clearListView True s) = {}
   \<and> (\<not> isZipFile g \<longrightarrow>
        addFilesToStorage env [g] (clearListView True s) =
          (None, pairFiles env [plainItem g 0]
                   ((clearListView True s)\<lparr>processedFileKeys := {fileKey g}\<rparr>)))"
proof -
  have "addFilesToStorage env files (clearPairView True s) = (None, clearPairView True s)"
    if "\<forall>f \<in> set files. fileKey f \<in> processedFileKeys s"
    by (rule addFiles_all_seen) (simp add: that clearPairView_def)
  moreover have "addFilesToStorage env [g] (clearListView True s) =
          (None, pairFiles env [plainItem g 0]
                   ((clearListView True s)\<lparr>processedFileKeys := {fileKey g}\<rparr>))"
    if "\<not> isZipFile g"
    using addFiles_single_plain [of g "clearListView True s" env] that
    by (simp add: clearListView_def)
  ultimately show ?thesis
    by (simp add: clearPairView_def clearListView_def)
qed

theorem pair_view_clear_keeps_processed_keys_witness:
  "map (\<lambda>kv. (basename (snd kv), xml (snd kv), xsl (snd kv))) (fileStorage (run sampleEnv pairSession))
     = [(''A'', aXml, aXslV1)]
   \<and> processedFileKeys (clearPairView True (run sampleEnv pairSession)) = {fileKey aXslV1, fileKey aXml}
   \<and> fst (addFilesToStorage sampleEnv [aXml, aXslV1] (clearPairView True (run sampleEnv pairSession))) = None
   \<and> fileStorage (snd (addFilesToStorage sampleEnv [aXml, aXslV1]
        (clearPairView True (run sampleEnv pairSession)))) = []
   \<and> xmlPool (snd (addFilesToStorage sampleEnv [aXml, aXslV1]
        (clearPairView True (run sampleEnv pairSession)))) = Map.empty
   \<and> processedFileKeys (clearListView True (run sampleEnv pairSession)) = {}
   \<and> map pooledFile (case xmlPool (snd (addFilesToStorage sampleEnv [aXml]
        (clearListView True (run sampleEnv pairSession)))) ''A'' of None \<Rightarrow> [] | Some ps \<Rightarrow> ps) = [aXml]"
proof -
  note t = pair_view_clear_keeps_processed_keys
    [of "run sampleEnv pairSession" "[aXml, aXslV1]" sampleEnv aXml]
  have seen: "\<forall>f \<in> set [aXml, aXslV1]. fileKey f \<in> processedFileKeys (run sampleEnv pairSession)"
    by (simp add: pairSession_state)
  have a: "addFilesToStorage sampleEnv [aXml, aXslV1] (clearPairView True (run sampleEnv pairSession))
            = (None, clearPairView True (run sampleEnv pairSession))"
    using t seen by blast
  have b: "addFilesToStorage sampleEnv [aXml] (clearListView True (run sampleEnv pairSession)) =
          (None, pairFiles sampleEnv [plainItem aXml 0]
                   ((clearListView True (run sampleEnv pairSession))\<lparr>processedFileKeys := {fileKey aXml}\<rparr>))"
    using t sample_plain(1) by blast
  have x: "classify (name (itemFile (plainItem aXml 0))) = XmlDocument"
    by (simp add: sample_classify)
  have c: "map pooledFile (case xmlPool (pairFiles sampleEnv [plainItem aXml 0]
                   ((clearListView True (run sampleEnv pairSession))\<lparr>processedFileKeys := {fileKey aXml}\<rparr>)) ''A''
             of None \<Rightarrow> [] | Some ps \<Rightarrow> ps) = [aXml]"
    using x
    by (simp add: pairFiles_xml_only processXml_pooled [OF sample_names(1)] clearListView_def)
  show ?thesis
    using t by (simp add: a b c pairSession_state)
qed

end
